theory Spec2Isabelle
  imports Main "HOL-Library.AList" "HOL-Library.Char_ord" "HOL-Library.List_Lexorder"
begin

section \<open>The model code generator (gaphor/codegen/profile\_coder.py)\<close>

subsection \<open>Python values\<close>

text \<open>
  Strings are byte strings (UTF-8): their lexicographic order on bytes is Python's order
  on code points. An attribute of the modelling framework that may be unset is an
  \<open>option\<close>; \<open>None\<close> is Python's \<open>None\<close>. Every failure of the interpreter that
  the generator can run into is a value of \<open>error\<close>; \<open>ValueError\<close> is the one the
  source raises itself and carries its message.
\<close>

datatype error =
    ValueError string
  | KeyError
  | TypeError
  | IndexError
  | AttributeError
  | UnboundLocalError
  | RecursionError

definition nl :: string where
  "nl = [CHR 0x0A]"

definition dq :: string where
  "dq = [CHR 0x22]"

text \<open>\<open>str(x)\<close> and the formatting of \<open>x\<close> in an f-string, for a string or \<open>None\<close>.\<close>

definition str :: "string option \<Rightarrow> string" where
  "str x = (case x of None \<Rightarrow> ''None'' | Some s \<Rightarrow> s)"

text \<open>The truth value of a string or \<open>None\<close>, and \<open>x or ""\<close>.\<close>

definition truthy :: "string option \<Rightarrow> bool" where
  "truthy x = (case x of None \<Rightarrow> False | Some s \<Rightarrow> s \<noteq> [])"

definition or_empty :: "string option \<Rightarrow> string" where
  "or_empty x = (case x of None \<Rightarrow> [] | Some s \<Rightarrow> s)"

text \<open>\<open>s.startswith(p)\<close> and \<open>sub in s\<close>.\<close>

fun starts_with :: "string \<Rightarrow> string \<Rightarrow> bool" where
  "starts_with [] s = True"
| "starts_with (p # ps) [] = False"
| "starts_with (p # ps) (c # cs) = (p = c \<and> starts_with ps cs)"

fun contains :: "string \<Rightarrow> string \<Rightarrow> bool" where
  "contains sub [] = (sub = [])"
| "contains sub (c # cs) = (starts_with sub (c # cs) \<or> contains sub cs)"

text \<open>
  \<open>s.lower()\<close> on the ASCII letters. The generator only compares the result with ASCII
  words that have no \<open>k\<close> in them, and no other character lowers to an ASCII letter of
  theirs, so the comparisons come out as in Python.
\<close>

definition lower_char :: "char \<Rightarrow> char" where
  "lower_char c =
     (if CHR ''A'' \<le> c \<and> c \<le> CHR ''Z'' then char_of (of_char c + (32 :: nat)) else c)"

definition lower :: "string \<Rightarrow> string" where
  "lower s = map lower_char s"

text \<open>\<open>sep.join(xs)\<close>.\<close>

fun join :: "string \<Rightarrow> string list \<Rightarrow> string" where
  "join sep [] = []"
| "join sep [x] = x"
| "join sep (x # y # ys) = x @ sep @ join sep (y # ys)"

subsection \<open>The loaded model\<close>

text \<open>
  The elements of the loaded model are objects of the modelling framework, compared and
  hashed by identity: an element is a reference, and the model maps a reference to the
  fields the generator reads. A property is only read, so it is a value.
  \<open>p_association\<close> is \<open>a.association\<close>, \<open>ownedEnd\<close> its owned end and \<open>end_class\<close>
  the \<open>class_\<close> of that end; \<open>p_slots\<close> is \<open>a.appliedStereotype[:].slot\<close>.
\<close>

type_synonym ref = nat

datatype owned_end = OwnedEnd (end_class: "ref option")

datatype association = Association (ownedEnd: "owned_end option")

datatype opposite = Opposite (opp_name: "string option") (opp_class: "ref option")

datatype feature = Feature (feature_name: "string option")

datatype slot = Slot (definingFeature: "feature option") (slot_value: "string option")

record property =
  p_name :: "string option"
  p_type :: "ref option"
  typeValue :: "string option"
  isDerived :: bool
  lowerValue :: "string option"
  upperValue :: "string option"
  aggregation :: "string option"
  p_opposite :: "opposite option"
  p_association :: "association option"
  p_slots :: "slot list"

record uml_class =
  c_name :: "string option"
  qualifiedName :: "string option list"
  general :: "ref list"
  c_attribute :: "property list"
  ownedOperation :: "string option list"

type_synonym model = "ref \<Rightarrow> uml_class"

text \<open>
  What the run takes from outside the source: \<open>lookup_element\<close> is the truth value of
  \<open>modeling_language.lookup_element(name)\<close>, \<open>repr_tuple\<close> is Python's \<open>repr\<close> of a
  tuple of names, and \<open>recursion_limit\<close> is the number of nested calls of
  \<open>write_class_def\<close> the interpreter allows before it raises \<open>RecursionError\<close>.
\<close>

record env =
  lookup_element :: "string option \<Rightarrow> bool"
  repr_tuple :: "string option list \<Rightarrow> string"
  recursion_limit :: nat

subsection \<open>The output file\<close>

text \<open>
  The file is the list of the strings \<open>f.write\<close> was called with, in order. Each string
  is kept with its origin (the statement that wrote it, and for which class), so that a
  property of the output can name the class a line belongs to even when two classes have
  the same name. The text of the file is \<open>file_text\<close>.
\<close>

datatype origin =
    Header
  | Import ref
  | ClassDef ref
  | Attr ref string
  | Operation ref
  | Pass ref
  | Blank
  | Prop ref
  | Subset ref

type_synonym chunk = "origin \<times> string"

definition file_text :: "chunk list \<Rightarrow> string" where
  "file_text f = concat (map snd f)"

definition header :: string where
  "header = concat (map (\<lambda>l. l @ nl)
     [''# This file is generated by profile_coder.py. DO NOT EDIT!'',
      '''',
      ''from __future__ import annotations'',
      '''',
      ''from gaphor.core.modeling.properties import ('',
      ''    association,'',
      ''    attribute,'',
      ''    enumeration,'',
      ''    relation_many,'',
      ''    relation_one,'',
      '')''])"

subsection \<open>type\_converter\<close>

definition type_converter :: "model \<Rightarrow> property \<Rightarrow> error + string" where
  "type_converter M property =
     (case p_type property of
        Some t \<Rightarrow> Inr (str (c_name (M t)))
      | None \<Rightarrow>
          (case typeValue property of
             None \<Rightarrow> Inl (ValueError
               (''ERROR! type is not specified for property '' @ str (p_name property)))
           | Some type_value \<Rightarrow>
               if lower type_value = ''boolean'' then Inr ''int''
               else if lower type_value \<in> {''integer'', ''unlimitednatural''} then Inr ''int''
               else if lower type_value = ''string'' \<or> type_value = ''ValueSpecification''
               then Inr ''str''
               else Inr type_value))"

subsection \<open>The filters\<close>

definition filter_uml_classes :: "env \<Rightarrow> model \<Rightarrow> ref list \<Rightarrow> ref list" where
  "filter_uml_classes E M classes = filter (\<lambda>cls. lookup_element E (c_name (M cls))) classes"

text \<open>
  \<open>"Kind" in cls.name\<close> raises \<open>TypeError\<close> when the name is \<open>None\<close>. The dictionary
  of enumerations is kept in insertion order; a later class of the same name replaces
  the value.
\<close>

definition find_enumerations ::
  "model \<Rightarrow> ref list \<Rightarrow> error + (ref list \<times> (string \<times> ref) list)" where
  "find_enumerations M classes =
     (if \<exists>cls \<in> set classes. c_name (M cls) = None then Inl TypeError
      else Inr
        (filter (\<lambda>cls. \<not> contains ''Kind'' (or_empty (c_name (M cls)))) classes,
         fold (\<lambda>cls d. AList.update (or_empty (c_name (M cls))) cls d)
           (filter (\<lambda>cls. contains ''Kind'' (or_empty (c_name (M cls)))) classes) []))"

text \<open>\<open>cls.qualifiedName[0]\<close> raises \<open>IndexError\<close> on an empty list.\<close>

definition filter_out_gaphor_profile :: "model \<Rightarrow> ref list \<Rightarrow> error + ref list" where
  "filter_out_gaphor_profile M classes =
     (if \<exists>cls \<in> set classes. qualifiedName (M cls) = [] then Inl IndexError
      else Inr (filter (\<lambda>cls. hd (qualifiedName (M cls)) \<noteq> Some ''Gaphor Profile'') classes))"

text \<open>
  \<open>sorted(xs, key=lambda e: e.name)\<close> on elements: the keys are computed first, then
  compared. With two elements or more every key takes part in a comparison, and a
  comparison with \<open>None\<close> raises \<open>TypeError\<close>. Python's sort is stable, as \<open>sort_key\<close> is.
\<close>

definition sorted_by_name :: "model \<Rightarrow> ref list \<Rightarrow> error + ref list" where
  "sorted_by_name M xs =
     (if 2 \<le> length xs \<and> (\<exists>x \<in> set xs. c_name (M x) = None) then Inl TypeError
      else Inr (sort_key (\<lambda>x. or_empty (c_name (M x))) xs))"

text \<open>
  The last filter of \<open>generate\<close>, \<open>cls.name[0] != "~"\<close>, inside the call of \<open>sorted\<close>:
  \<open>cls.name[0]\<close> raises \<open>TypeError\<close> on \<open>None\<close> and \<open>IndexError\<close> on the empty string, at
  the first class that has such a name.
\<close>

fun drop_tilde :: "model \<Rightarrow> ref list \<Rightarrow> error + ref list" where
  "drop_tilde M [] = Inr []"
| "drop_tilde M (cls # classes) =
     (case c_name (M cls) of
        None \<Rightarrow> Inl TypeError
      | Some [] \<Rightarrow> Inl IndexError
      | Some (c # cs) \<Rightarrow>
          (case drop_tilde M classes of
             Inl e \<Rightarrow> Inl e
           | Inr rest \<Rightarrow> Inr (if c \<noteq> CHR ''~'' then cls # rest else rest)))"

text \<open>The read, filter and sort steps of \<open>generate\<close>, up to the sorted class list.\<close>

definition select_classes ::
  "model \<Rightarrow> ref list \<Rightarrow> error + (ref list \<times> (string \<times> ref) list)" where
  "select_classes M classes =
     (case find_enumerations M classes of
        Inl e \<Rightarrow> Inl e
      | Inr (classes1, enumerations) \<Rightarrow>
          (case filter_out_gaphor_profile M classes1 of
             Inl e \<Rightarrow> Inl e
           | Inr classes2 \<Rightarrow>
               (case drop_tilde M classes2 of
                  Inl e \<Rightarrow> Inl e
                | Inr classes3 \<Rightarrow>
                    (case sorted_by_name M classes3 of
                       Inl e \<Rightarrow> Inl e
                     | Inr classes4 \<Rightarrow> Inr (classes4, enumerations)))))"

subsection \<open>The class hierarchy\<close>

text \<open>
  \<open>cls.attribute["it.association"]\<close> selects the attributes that have an association.
  \<open>a.association.ownedEnd.class_\<close> raises \<open>AttributeError\<close> when there is no owned end;
  the class of the end may be \<open>None\<close>, and is yielded as it is.
\<close>

fun get_class_extensions_of :: "property list \<Rightarrow> error + ref option list" where
  "get_class_extensions_of [] = Inr []"
| "get_class_extensions_of (a # as) =
     (case p_association a of
        None \<Rightarrow> get_class_extensions_of as
      | Some assoc \<Rightarrow>
          if p_name a = Some ''baseClass'' then
            (case ownedEnd assoc of
               None \<Rightarrow> Inl AttributeError
             | Some e \<Rightarrow>
                 (case get_class_extensions_of as of
                    Inl err \<Rightarrow> Inl err
                  | Inr rest \<Rightarrow> Inr (end_class e # rest)))
          else get_class_extensions_of as)"

definition get_class_extensions :: "model \<Rightarrow> ref \<Rightarrow> error + ref option list" where
  "get_class_extensions M cls = get_class_extensions_of (c_attribute (M cls))"

text \<open>
  One entry of the hierarchy: the key function \<open>e.name\<close> raises \<open>AttributeError\<close> on a
  meta class that is \<open>None\<close>, before any comparison.
\<close>

definition hierarchy_entry :: "model \<Rightarrow> ref \<Rightarrow> error + ref list" where
  "hierarchy_entry M cls =
     (let base_classes = general (M cls) in
      case get_class_extensions M cls of
        Inl e \<Rightarrow> Inl e
      | Inr meta_classes \<Rightarrow>
          if None \<in> set meta_classes then Inl AttributeError
          else sorted_by_name M (base_classes @ map the meta_classes))"

text \<open>
  The dictionary is an association list in insertion order: \<open>AList.update\<close> replaces the
  value of a key that is present, where it stands, and appends a new key.
\<close>

type_synonym hierarchy = "(ref \<times> ref list) list"

fun create_class_hierarchy_from :: "model \<Rightarrow> ref list \<Rightarrow> hierarchy \<Rightarrow> error + hierarchy" where
  "create_class_hierarchy_from M [] hierarchy = Inr hierarchy"
| "create_class_hierarchy_from M (cls # classes) hierarchy =
     (case hierarchy_entry M cls of
        Inl e \<Rightarrow> Inl e
      | Inr parents \<Rightarrow>
          create_class_hierarchy_from M classes (AList.update cls parents hierarchy))"

definition create_class_hierarchy :: "model \<Rightarrow> ref list \<Rightarrow> error + hierarchy" where
  "create_class_hierarchy M classes = create_class_hierarchy_from M classes []"

subsection \<open>Writing the class definitions\<close>

text \<open>
  The attributes both writers pass over:
  \<open>not a.name or a.name == "baseClass" or a.isDerived\<close>.
\<close>

definition skipped :: "property \<Rightarrow> bool" where
  "skipped a = (\<not> truthy (p_name a) \<or> p_name a = Some ''baseClass'' \<or> isDerived a)"

text \<open>
  \<open>write_attributes\<close>: the loop over the attributes sorted by \<open>a.name or ""\<close>, with the
  file and the flag \<open>written\<close> as its state. A failure of \<open>type_converter\<close> ends the run;
  what was written before stays in the file.
\<close>

definition attribute_text :: "property \<Rightarrow> string \<Rightarrow> string" where
  "attribute_text a type_value =
     (if type_value \<in> {''int'', ''str''} then
        ''    '' @ str (p_name a) @ '': attribute['' @ type_value @ '']'' @ nl
      else if contains ''Kind'' type_value then
        ''    '' @ str (p_name a) @ '': enumeration'' @ nl
      else if upperValue a = Some ''1'' then
        ''    '' @ str (p_name a) @ '': relation_one['' @ type_value @ '']'' @ nl
      else
        ''    '' @ str (p_name a) @ '': relation_many['' @ type_value @ '']'' @ nl)"

fun write_attribute_lines ::
  "model \<Rightarrow> ref \<Rightarrow> property list \<Rightarrow> chunk list \<times> bool \<Rightarrow> error option \<times> chunk list \<times> bool" where
  "write_attribute_lines M cls [] s = (None, s)"
| "write_attribute_lines M cls (a # as) (f, written) =
     (if skipped a then
        write_attribute_lines M cls as (f, written)
      else
        (case type_converter M a of
           Inl e \<Rightarrow> (Some e, f, written)
         | Inr type_value \<Rightarrow>
             if type_value \<noteq> [] then
               write_attribute_lines M cls as
                 (f @ [(Attr cls (or_empty (p_name a)), attribute_text a type_value)], True)
             else write_attribute_lines M cls as (f, written)))"

definition operation_lines :: "ref \<Rightarrow> string option list \<Rightarrow> chunk list" where
  "operation_lines cls ops =
     map (\<lambda>o_name. (Operation cls, ''    '' @ str o_name @ '': operation'' @ nl)) ops"

definition write_attributes :: "model \<Rightarrow> ref \<Rightarrow> chunk list \<Rightarrow> error option \<times> chunk list" where
  "write_attributes M cls f =
     (case write_attribute_lines M cls
             (sort_key (\<lambda>a. or_empty (p_name a)) (c_attribute (M cls))) (f, False) of
        (Some e, f1, written) \<Rightarrow> (Some e, f1)
      | (None, f1, written) \<Rightarrow>
          (let f2 = f1 @ operation_lines cls (ownedOperation (M cls));
               written2 = (written \<or> ownedOperation (M cls) \<noteq> [])
           in if \<not> written2 then (None, f2 @ [(Pass cls, ''    pass'' @ nl @ nl)])
              else (None, f2)))"

text \<open>
  \<open>', '.join(g.name for g in generalizations)\<close> raises \<open>TypeError\<close> on a name that is
  \<open>None\<close>.
\<close>

definition class_text :: "model \<Rightarrow> ref \<Rightarrow> ref list \<Rightarrow> error + string" where
  "class_text M cls generalizations =
     (if \<exists>g \<in> set generalizations. c_name (M g) = None then Inl TypeError
      else Inr (''class '' @ str (c_name (M cls)) @ ''('' @
                join '', '' (map (\<lambda>g. or_empty (c_name (M g))) generalizations) @ ''):'' @ nl))"

text \<open>
  \<open>write_class_def\<close> calls itself on the generalizations of the class, and on a cyclic
  hierarchy it does so until the interpreter raises \<open>RecursionError\<close>. The first argument
  is the number of nested calls of \<open>write_class_def\<close> still allowed (frames of other
  functions are not counted). The state is the file and the set \<open>cls_written\<close>;
  \<open>hierarchy[cls]\<close> raises \<open>KeyError\<close> on a class that is not a key.
  \<open>write_generalizations\<close> is the loop \<open>for g in generalizations\<close>.
\<close>

fun write_class_def ::
      "nat \<Rightarrow> model \<Rightarrow> hierarchy \<Rightarrow> ref \<Rightarrow> chunk list \<times> ref set \<Rightarrow>
       error option \<times> chunk list \<times> ref set"
  and write_generalizations ::
      "nat \<Rightarrow> model \<Rightarrow> hierarchy \<Rightarrow> ref list \<Rightarrow> chunk list \<times> ref set \<Rightarrow>
       error option \<times> chunk list \<times> ref set" where
  "write_class_def 0 M hierarchy cls s = (Some RecursionError, s)"
| "write_class_def (Suc n) M hierarchy cls (f, cls_written) =
     (if cls \<in> cls_written then (None, f, cls_written)
      else
        (case map_of hierarchy cls of
           None \<Rightarrow> (Some KeyError, f, cls_written)
         | Some generalizations \<Rightarrow>
             (case write_generalizations n M hierarchy generalizations (f, cls_written) of
                (Some e, s1) \<Rightarrow> (Some e, s1)
              | (None, f1, cls_written1) \<Rightarrow>
                  (case class_text M cls generalizations of
                     Inl e \<Rightarrow> (Some e, f1, cls_written1)
                   | Inr line \<Rightarrow>
                       (case write_attributes M cls (f1 @ [(ClassDef cls, line)]) of
                          (Some e, f2) \<Rightarrow> (Some e, f2, cls_written1)
                        | (None, f2) \<Rightarrow> (None, f2, insert cls cls_written1))))))"
| "write_generalizations n M hierarchy [] s = (None, s)"
| "write_generalizations n M hierarchy (g # gs) s =
     (case write_class_def n M hierarchy g s of
        (Some e, s1) \<Rightarrow> (Some e, s1)
      | (None, s1) \<Rightarrow> write_generalizations n M hierarchy gs s1)"

subsection \<open>Writing the properties and the subsets\<close>

text \<open>
  \<open>write_properties\<close>: the loop over \<open>cls.attribute\<close> in the stored order. Its state is
  the file, what \<open>print\<close> wrote, and the local variable \<open>values\<close>, which is unbound
  (\<open>None\<close>) when the function is entered and keeps its value from one attribute to the
  next. In the f-string of the enumeration line \<open>{values}\<close> raises \<open>UnboundLocalError\<close>
  on the unbound variable and \<open>{values[0]}\<close> raises \<open>IndexError\<close> on the empty tuple.
\<close>

definition association_text :: "model \<Rightarrow> ref \<Rightarrow> property \<Rightarrow> string \<Rightarrow> string" where
  "association_text M cls a type_value =
     (let lower_part = (if lowerValue a \<in> {None, Some ''0''} then []
                        else '', lower='' @ str (lowerValue a));
          upper_part = (if upperValue a = Some ''*'' then []
                        else '', upper='' @
                          (if truthy (upperValue a) then str (upperValue a) else ''1''));
          composite = (if aggregation a = Some ''composite'' then '', composite=True'' else []);
          opposite_part =
            (case p_opposite a of
               None \<Rightarrow> []
             | Some opp \<Rightarrow>
                 if truthy (opp_name opp) \<and> opp_class opp \<noteq> None
                 then '', opposite='' @ dq @ str (opp_name opp) @ dq else [])
      in str (c_name (M cls)) @ ''.'' @ str (p_name a) @ '' = association('' @ dq @
         str (p_name a) @ dq @ '', '' @ type_value @ lower_part @ upper_part @ composite @
         opposite_part @ '')'' @ nl)"

type_synonym props_state = "chunk list \<times> string list \<times> string option list option"

fun write_property_lines ::
  "env \<Rightarrow> model \<Rightarrow> ref \<Rightarrow> (string \<times> ref) list \<Rightarrow> property list \<Rightarrow> props_state \<Rightarrow>
   error option \<times> props_state" where
  "write_property_lines E M cls enumerations [] s = (None, s)"
| "write_property_lines E M cls enumerations (a # as) (f, printed, values) =
     (if skipped a then
        write_property_lines E M cls enumerations as (f, printed, values)
      else
        (case type_converter M a of
           Inl e \<Rightarrow> (Some e, f, printed, values)
         | Inr type_value \<Rightarrow>
             if type_value \<in> {''int'', ''str''} then
               write_property_lines E M cls enumerations as
                 (f @ [(Prop cls, str (c_name (M cls)) @ ''.'' @ str (p_name a) @
                          '' = attribute('' @ dq @ str (p_name a) @ dq @ '', '' @
                          type_value @ '')'' @ nl)],
                  printed, values)
             else if type_value = [] then
               write_property_lines E M cls enumerations as
                 (f, printed @ [''No type for '' @ str (c_name (M cls)) @ ''.'' @
                                str (p_name a) @ nl], values)
             else if contains ''Kind'' type_value then
               (let values1 =
                      (case map_of enumerations type_value of
                         Some enum \<Rightarrow> Some (map p_name (c_attribute (M enum)))
                       | None \<Rightarrow> values)
                in case values1 of
                     None \<Rightarrow> (Some UnboundLocalError, f, printed, values1)
                   | Some [] \<Rightarrow> (Some IndexError, f, printed, values1)
                   | Some (v # vs) \<Rightarrow>
                       write_property_lines E M cls enumerations as
                         (f @ [(Prop cls, str (c_name (M cls)) @ ''.'' @ str (p_name a) @
                                  '' = enumeration('' @ dq @ str (p_name a) @ dq @ '', '' @
                                  repr_tuple E (v # vs) @ '', '' @ dq @ str v @ dq @
                                  '')'' @ nl)],
                          printed, values1))
             else
               write_property_lines E M cls enumerations as
                 (f @ [(Prop cls, association_text M cls a type_value)], printed, values)))"

definition write_properties ::
  "env \<Rightarrow> model \<Rightarrow> ref \<Rightarrow> (string \<times> ref) list \<Rightarrow> chunk list \<times> string list \<Rightarrow>
   error option \<times> chunk list \<times> string list" where
  "write_properties E M cls enumerations s =
     (case write_property_lines E M cls enumerations (c_attribute (M cls))
             (fst s, snd s, None) of
        (r, f1, printed1, values1) \<Rightarrow> (r, f1, printed1))"

text \<open>
  \<open>write_subsets\<close>: \<open>slot.definingFeature.name\<close> raises \<open>AttributeError\<close> on a slot
  with no defining feature.
\<close>

fun write_subset_slots ::
  "model \<Rightarrow> ref \<Rightarrow> property \<Rightarrow> slot list \<Rightarrow> chunk list \<Rightarrow> error option \<times> chunk list" where
  "write_subset_slots M cls a [] f = (None, f)"
| "write_subset_slots M cls a (slot # slots) f =
     (case definingFeature slot of
        None \<Rightarrow> (Some AttributeError, f)
      | Some feat \<Rightarrow>
          if feature_name feat = Some ''subsets'' then
            write_subset_slots M cls a slots
              (f @ [(Subset cls, str (c_name (M cls)) @ ''.'' @ str (slot_value slot) @
                       ''.subsets.add('' @ str (c_name (M cls)) @ ''.'' @ str (p_name a) @
                       '')  # type: ignore[attr-defined]'' @ nl)])
          else write_subset_slots M cls a slots f)"

fun write_subsets_of ::
  "model \<Rightarrow> ref \<Rightarrow> property list \<Rightarrow> chunk list \<Rightarrow> error option \<times> chunk list" where
  "write_subsets_of M cls [] f = (None, f)"
| "write_subsets_of M cls (a # as) f =
     (case write_subset_slots M cls a (p_slots a) f of
        (Some e, f1) \<Rightarrow> (Some e, f1)
      | (None, f1) \<Rightarrow> write_subsets_of M cls as f1)"

definition write_subsets :: "model \<Rightarrow> ref \<Rightarrow> chunk list \<Rightarrow> error option \<times> chunk list" where
  "write_subsets M cls f = write_subsets_of M cls (c_attribute (M cls)) f"

subsection \<open>generate\<close>

text \<open>
  The three loops of \<open>generate\<close> over \<open>hierarchy.keys()\<close>. The first one sorts the
  attributes of the class in place before it writes the class, so it changes the model
  as it goes; each call of \<open>write_class_def\<close> starts with the whole recursion limit.
\<close>

definition sort_attributes :: "model \<Rightarrow> ref \<Rightarrow> model" where
  "sort_attributes M cls =
     M(cls := (M cls)\<lparr>c_attribute := sort_key (\<lambda>a. or_empty (p_name a)) (c_attribute (M cls))\<rparr>)"

fun write_class_defs ::
  "nat \<Rightarrow> hierarchy \<Rightarrow> ref list \<Rightarrow> model \<times> chunk list \<times> ref set \<Rightarrow>
   error option \<times> model \<times> chunk list \<times> ref set" where
  "write_class_defs n hierarchy [] s = (None, s)"
| "write_class_defs n hierarchy (cls # keys) (M, s) =
     (case write_class_def n (sort_attributes M cls) hierarchy cls s of
        (Some e, s1) \<Rightarrow> (Some e, sort_attributes M cls, s1)
      | (None, s1) \<Rightarrow> write_class_defs n hierarchy keys (sort_attributes M cls, s1))"

fun write_all_properties ::
  "env \<Rightarrow> model \<Rightarrow> (string \<times> ref) list \<Rightarrow> ref list \<Rightarrow> chunk list \<times> string list \<Rightarrow>
   error option \<times> chunk list \<times> string list" where
  "write_all_properties E M enumerations [] s = (None, s)"
| "write_all_properties E M enumerations (cls # keys) s =
     (case write_properties E M cls enumerations s of
        (Some e, s1) \<Rightarrow> (Some e, s1)
      | (None, s1) \<Rightarrow> write_all_properties E M enumerations keys s1)"

fun write_all_subsets ::
  "model \<Rightarrow> ref list \<Rightarrow> chunk list \<Rightarrow> error option \<times> chunk list" where
  "write_all_subsets M [] f = (None, f)"
| "write_all_subsets M (cls # keys) f =
     (case write_subsets M cls f of
        (Some e, f1) \<Rightarrow> (Some e, f1)
      | (None, f1) \<Rightarrow> write_all_subsets M keys f1)"

text \<open>
  \<open>generate\<close> from the loaded model on: \<open>classes\<close> is
  \<open>element_factory.lselect(UML.Class)\<close>; loading the model file before and shutting the
  element factory down after are the framework's. What a run leaves behind is the output
  file (\<open>None\<close> when the run failed before it opened the file), what it printed and the
  model.
\<close>

record run =
  outfile :: "chunk list option"
  printed :: "string list"
  elements :: model

definition import_lines :: "model \<Rightarrow> ref list \<Rightarrow> chunk list" where
  "import_lines M uml_classes =
     map (\<lambda>cls. (Import cls, ''from gaphor.UML import '' @ str (c_name (M cls)) @ nl)) uml_classes"

definition generate :: "env \<Rightarrow> model \<Rightarrow> ref list \<Rightarrow> error option \<times> run" where
  "generate E M classes =
     (case select_classes M classes of
        Inl e \<Rightarrow> (Some e, \<lparr>outfile = None, printed = [], elements = M\<rparr>)
      | Inr (classes1, enumerations) \<Rightarrow>
          (case create_class_hierarchy M classes1 of
             Inl e \<Rightarrow> (Some e, \<lparr>outfile = None, printed = [], elements = M\<rparr>)
           | Inr hierarchy \<Rightarrow>
               (let uml_classes = filter_uml_classes E M classes1;
                    f0 = (Header, header) # import_lines M uml_classes
                in case write_class_defs (recursion_limit E) hierarchy (map fst hierarchy)
                          (M, f0, set uml_classes) of
                     (Some e, M1, f1, cls_written) \<Rightarrow>
                       (Some e, \<lparr>outfile = Some f1, printed = [], elements = M1\<rparr>)
                   | (None, M1, f1, cls_written) \<Rightarrow>
                       (case write_all_properties E M1 enumerations (map fst hierarchy)
                               (f1 @ [(Blank, nl @ nl)], []) of
                          (Some e, f2, printed2) \<Rightarrow>
                            (Some e, \<lparr>outfile = Some f2, printed = printed2, elements = M1\<rparr>)
                        | (None, f2, printed2) \<Rightarrow>
                            (case write_all_subsets M1 (map fst hierarchy) f2 of
                               (r, f3) \<Rightarrow>
                                 (r, \<lparr>outfile = Some f3, printed = printed2,
                                      elements = M1\<rparr>))))))"

text \<open>The class definitions of a file, in the order they were written.\<close>

definition class_defs :: "chunk list \<Rightarrow> ref list" where
  "class_defs f = concat (map (\<lambda>ch. case fst ch of ClassDef c \<Rightarrow> [c] | _ \<Rightarrow> []) f)"

text \<open>The names on the attribute lines written for a class, in the order of the file.\<close>

definition attribute_names :: "ref \<Rightarrow> chunk list \<Rightarrow> string list" where
  "attribute_names cls f =
     concat (map (\<lambda>ch. case fst ch of Attr c a \<Rightarrow> (if c = cls then [a] else []) | _ \<Rightarrow> []) f)"

section \<open>The fork node item (gaphor/diagram/activitynodes.py)\<close>

text \<open>
  The canvas, its solver and the base classes belong to the canvas toolkit. A call into
  them is recorded, in order, in \<open>calls\<close>; it leaves the fields of the item that the
  source reads (\<open>_handles\<close>, \<open>_constraints\<close>, \<open>subject\<close>, the text of \<open>_join_spec\<close>)
  as they are. A handle is the pair of its variables \<open>x\<close> and \<open>y\<close>, a variable is a
  reference. \<open>add_constraint\<close> returns the constraint it was given.
\<close>

type_synonym variable = nat

record handle =
  h_x :: variable
  h_y :: variable

datatype constraint =
    EqualsConstraint (eq_a: variable) (eq_b: variable)
  | LessThanConstraint (smaller: variable) (bigger: variable) (delta: int)

record literal_specification =
  l_value :: "string option"

record node =
  is_join_node :: bool
  joinSpec :: "literal_specification option"

datatype call =
    Item_setup_canvas
  | Item_teardown_canvas
  | add_constraint constraint
  | remove_constraint constraint
  | DiagramItem_on_subject_notify
  | request_update

record fork_node_item =
  handles :: "handle list"
  constraints :: "constraint list"
  subject :: "node option"
  join_spec_text :: "string option"
  calls :: "call list"

definition DEFAULT_JOIN_SPEC :: string where
  "DEFAULT_JOIN_SPEC = ''and''"

text \<open>
  \<open>__init__\<close>: the two new handles are its arguments here; the subject is not set and
  the text of the join specification is empty.
\<close>

definition init :: "handle \<Rightarrow> handle \<Rightarrow> fork_node_item" where
  "init h1 h2 = \<lparr>handles = [h1, h2], constraints = [], subject = None,
                 join_spec_text = None, calls = []\<rparr>"



text \<open>
  \<open>set_join_spec\<close>: a new literal specification is created for a join node that has
  none; an empty value stands for the default.
\<close>

definition set_join_spec :: "string \<Rightarrow> fork_node_item \<Rightarrow> fork_node_item" where
  "set_join_spec v self =
     (case subject self of
        None \<Rightarrow> self
      | Some subj \<Rightarrow>
          if \<not> is_join_node subj then self
          else
            (let spec = (case joinSpec subj of
                           None \<Rightarrow> \<lparr>l_value = None\<rparr>
                         | Some sp \<Rightarrow> sp);
                 v1 = (if v = [] then DEFAULT_JOIN_SPEC else v)
             in self\<lparr>subject := Some (subj\<lparr>joinSpec := Some (spec\<lparr>l_value := Some v1\<rparr>)\<rparr>),
                     join_spec_text := Some v1\<rparr>))"

text \<open>
  The truth value of \<open>self.subject.joinSpec or self.subject.joinSpec.value\<close>: an
  element is true, so \<open>or\<close> stops at a join specification that is there; on \<open>None\<close> it
  goes on to \<open>None.value\<close>, which raises \<open>AttributeError\<close>.
\<close>

definition join_spec_or_value :: "node \<Rightarrow> error + bool" where
  "join_spec_or_value subj =
     (case joinSpec subj of
        Some spec \<Rightarrow> Inr True
      | None \<Rightarrow> Inl AttributeError)"

text \<open>
  \<open>on_subject_notify\<close>; \<open>went_to_set_join_spec\<close> tells whether the run took the branch
  that calls \<open>set_join_spec\<close>.
\<close>

record notify_result =
  raised :: "error option"
  went_to_set_join_spec :: bool
  item :: fork_node_item

definition on_subject_notify :: "fork_node_item \<Rightarrow> notify_result" where
  "on_subject_notify self =
     (let self1 = self\<lparr>calls := calls self @ [DiagramItem_on_subject_notify]\<rparr> in
      case subject self1 of
        None \<Rightarrow>
          \<lparr>raised = None, went_to_set_join_spec = False,
           item = self1\<lparr>calls := calls self1 @ [request_update]\<rparr>\<rparr>
      | Some subj \<Rightarrow>
          (case join_spec_or_value subj of
             Inl e \<Rightarrow> \<lparr>raised = Some e, went_to_set_join_spec = False, item = self1\<rparr>
           | Inr b \<Rightarrow>
               if \<not> b then
                 (let self2 = set_join_spec DEFAULT_JOIN_SPEC self1 in
                  \<lparr>raised = None, went_to_set_join_spec = True,
                   item = self2\<lparr>calls := calls self2 @ [request_update]\<rparr>\<rparr>)
               else
                 \<lparr>raised = None, went_to_set_join_spec = False,
                  item = self1\<lparr>calls := calls self1 @ [request_update]\<rparr>\<rparr>))"

section \<open>Notions the properties are stated with\<close>

text \<open>
  The generalizations and meta classes the hierarchy holds for a class (none for a class
  that is not a key).
\<close>

definition parents :: "hierarchy \<Rightarrow> ref \<Rightarrow> ref list" where
  "parents h c = (case map_of h c of None \<Rightarrow> [] | Some gs \<Rightarrow> gs)"

text \<open>
  A sequence of class definitions is in order, given the set \<open>S\<close> of the classes that
  are there before it starts, when all parents of each class are in \<open>S\<close> or defined
  earlier in the sequence.
\<close>

fun defs_ordered :: "hierarchy \<Rightarrow> ref set \<Rightarrow> ref list \<Rightarrow> bool" where
  "defs_ordered h S [] = True"
| "defs_ordered h S (c # cs) = (set (parents h c) \<subseteq> S \<and> defs_ordered h (insert c S) cs)"

text \<open>
  What a run of \<open>write_class_def\<close> (or of the loop over the generalizations) from the
  state \<open>s\<close> to the state \<open>s'\<close> with the outcome \<open>r\<close> does to the file and to
  \<open>cls_written\<close>.
\<close>

definition step ::
  "hierarchy \<Rightarrow> chunk list \<times> ref set \<Rightarrow> error option \<Rightarrow> chunk list \<times> ref set \<Rightarrow> bool" where
  "step h s r s' =
     (\<exists>new. fst s' = fst s @ new \<and>
        snd s \<subseteq> snd s' \<and>
        snd s' \<subseteq> snd s \<union> set (class_defs new) \<and>
        set (class_defs new) \<inter> snd s = {} \<and>
        set (class_defs new) \<subseteq> fst ` set h \<and>
        defs_ordered h (snd s) (class_defs new) \<and>
        distinct (class_defs new) \<and>
        (r = None \<longrightarrow> set (class_defs new) \<subseteq> snd s') \<and>
        (\<forall>c. sorted (attribute_names c new) \<and>
             (c \<notin> set (class_defs new) \<longrightarrow> attribute_names c new = [])))"

text \<open>
  The classes the filter step of \<open>generate\<close> is to keep: the name has no \<open>Kind\<close>
  in it, the qualified name does not start with the Gaphor profile, and the name does not
  begin with a tilde.
\<close>

definition kept :: "model \<Rightarrow> ref \<Rightarrow> bool" where
  "kept M cls =
     (\<not> contains ''Kind'' (or_empty (c_name (M cls))) \<and>
      hd (qualifiedName (M cls)) \<noteq> Some ''Gaphor Profile'' \<and>
      \<not> starts_with ''~'' (or_empty (c_name (M cls))))"

text \<open>
  The meta classes of a class: the classes at the owned ends of the associations of its
  attributes named \<open>baseClass\<close>, in the order of the attributes.
\<close>

definition meta_classes :: "model \<Rightarrow> ref \<Rightarrow> ref list" where
  "meta_classes M cls =
     concat (map (\<lambda>a. case p_association a of
                          None \<Rightarrow> []
                        | Some assoc \<Rightarrow>
                            if p_name a = Some ''baseClass'' then
                              (case ownedEnd assoc of
                                 None \<Rightarrow> []
                               | Some e \<Rightarrow> (case end_class e of None \<Rightarrow> [] | Some c \<Rightarrow> [c]))
                            else [])
                 (c_attribute (M cls)))"

text \<open>
  The fields of a class are set as far as \<open>create_class_hierarchy\<close> reads them: each
  extension has its end and the class of the end, and where there are two parents or more
  to sort, they have names.
\<close>

definition parents_set :: "model \<Rightarrow> ref \<Rightarrow> bool" where
  "parents_set M cls =
     ((\<forall>a \<in> set (c_attribute (M cls)).
         case p_association a of
           None \<Rightarrow> True
         | Some assoc \<Rightarrow>
             p_name a = Some ''baseClass'' \<longrightarrow>
             (case ownedEnd assoc of None \<Rightarrow> False | Some e \<Rightarrow> end_class e \<noteq> None)) \<and>
      (2 \<le> length (general (M cls) @ meta_classes M cls) \<longrightarrow>
         (\<forall>g \<in> set (general (M cls) @ meta_classes M cls). c_name (M g) \<noteq> None)))"

text \<open>
  For \<open>write_properties\<close>: an attribute that is written as an enumeration and whose
  converted type is no key of the dictionary of enumerations; an attribute the loop gets
  past without a failure and without a lookup; and the precondition that no attribute
  of the class is of the first kind.
\<close>

definition kind_without_enumeration :: "model \<Rightarrow> (string \<times> ref) list \<Rightarrow> property \<Rightarrow> bool" where
  "kind_without_enumeration M en a =
     (\<not> skipped a \<and>
      (case type_converter M a of
         Inl e \<Rightarrow> False
       | Inr tv \<Rightarrow> contains ''Kind'' tv \<and> map_of en tv = None))"

definition passes_unbound :: "model \<Rightarrow> property \<Rightarrow> bool" where
  "passes_unbound M a =
     (skipped a \<or>
      (case type_converter M a of Inl e \<Rightarrow> False | Inr tv \<Rightarrow> \<not> contains ''Kind'' tv))"

definition enumerations_present :: "model \<Rightarrow> (string \<times> ref) list \<Rightarrow> ref \<Rightarrow> bool" where
  "enumerations_present M en cls =
     (\<forall>a \<in> set (c_attribute (M cls)). \<not> kind_without_enumeration M en a)"

text \<open>
  The file \<open>f'\<close> is the file \<open>f\<close> with strings appended whose origins all
  satisfy \<open>P\<close>.
\<close>

definition appends :: "(origin \<Rightarrow> bool) \<Rightarrow> chunk list \<Rightarrow> chunk list \<Rightarrow> bool" where
  "appends P f f' = (\<exists>new. f' = f @ new \<and> (\<forall>ch \<in> set new. P (fst ch)))"

text \<open>The origins of what \<open>generate\<close> writes after the class definitions.\<close>

definition is_prop :: "origin \<Rightarrow> bool" where
  "is_prop x = (case x of Prop c \<Rightarrow> True | Subset c \<Rightarrow> True | Blank \<Rightarrow> True | _ \<Rightarrow> False)"

section \<open>Example inputs\<close>

text \<open>
  A small profile: the stereotype \<open>Block\<close> extends the UML class \<open>Class\<close> and
  specializes \<open>NamedItem\<close>, as \<open>Requirement\<close> does; \<open>FlowDirectionKind\<close> is an enumeration, \<open>~tmp\<close> and the
  class of the Gaphor profile are filtered out. Every other reference is an element
  with no name.
\<close>

definition attr :: "string \<Rightarrow> property" where
  "attr n = \<lparr>p_name = Some n, p_type = None, typeValue = None, isDerived = False,
             lowerValue = None, upperValue = None, aggregation = None, p_opposite = None,
             p_association = None, p_slots = []\<rparr>"

definition named :: "string \<Rightarrow> uml_class" where
  "named n = \<lparr>c_name = Some n, qualifiedName = [Some ''Blocks'', Some n], general = [],
              c_attribute = [], ownedOperation = []\<rparr>"

definition unnamed :: uml_class where
  "unnamed = \<lparr>c_name = None, qualifiedName = [], general = [], c_attribute = [],
              ownedOperation = []\<rparr>"

definition ex_model :: model where
  "ex_model =
     (\<lambda>r. unnamed)
     (1 := (named ''Block'')\<lparr>general := [3],
              c_attribute :=
                [(attr ''isEncapsulated'')\<lparr>typeValue := Some ''Boolean''\<rparr>,
                 (attr ''direction'')\<lparr>p_type := Some 4\<rparr>,
                 (attr ''baseClass'')\<lparr>p_type := Some 2,
                    p_association := Some (Association (Some (OwnedEnd (Some 2))))\<rparr>]\<rparr>,
      2 := named ''Class'',
      3 := named ''NamedItem'',
      4 := (named ''FlowDirectionKind'')\<lparr>c_attribute := [attr ''in'', attr ''out'']\<rparr>,
      5 := named ''~tmp'',
      6 := (named ''Stuff'')\<lparr>qualifiedName := [Some ''Gaphor Profile'', Some ''Stuff'']\<rparr>,
      7 := (named ''Requirement'')\<lparr>general := [3]\<rparr>)"

definition ex_classes :: "ref list" where
  "ex_classes = [1, 2, 3, 4, 5, 6, 7]"

text \<open>The hierarchy of the classes that are kept, and the model with an attribute of
  \<open>NamedItem\<close> that has neither a type nor a type value.\<close>

definition ex_hierarchy :: hierarchy where
  "ex_hierarchy = [(1, [2, 3]), (2, []), (3, []), (7, [3])]"

definition ex_untyped :: model where
  "ex_untyped = ex_model(3 := (named ''NamedItem'')\<lparr>c_attribute := [attr ''size'']\<rparr>)"

text \<open>
  A port with two attributes of an enumeration type: the type of \<open>direction\<close> is the
  class \<open>FlowDirectionKind\<close>, the type of \<open>mode\<close> is given by name only and no class
  of the model has that name. In the second model the two attributes stand in the other
  order.
\<close>

definition ex_port :: model where
  "ex_port =
     (\<lambda>r. unnamed)
     (1 := (named ''Port'')\<lparr>c_attribute :=
              [(attr ''direction'')\<lparr>p_type := Some 4\<rparr>,
               (attr ''mode'')\<lparr>typeValue := Some ''ModeKind''\<rparr>]\<rparr>,
      4 := (named ''FlowDirectionKind'')\<lparr>c_attribute := [attr ''in'', attr ''out'']\<rparr>)"

definition ex_port_reversed :: model where
  "ex_port_reversed =
     ex_port(1 := (named ''Port'')\<lparr>c_attribute :=
              [(attr ''mode'')\<lparr>typeValue := Some ''ModeKind''\<rparr>,
               (attr ''direction'')\<lparr>p_type := Some 4\<rparr>]\<rparr>)"

text \<open>
  The environment of the examples. \<open>repr_name\<close> is Python's \<open>repr\<close> of \<open>None\<close> and
  of a name that has no quote, backslash or control character in it; the \<open>repr\<close> of a
  tuple puts a comma after a single element.
\<close>

definition repr_name :: "string option \<Rightarrow> string" where
  "repr_name n = (case n of None \<Rightarrow> ''None'' | Some s \<Rightarrow> [CHR 0x27] @ s @ [CHR 0x27])"

definition ex_env :: env where
  "ex_env = \<lparr>lookup_element = (\<lambda>n. n = Some ''Class''),
             repr_tuple = (\<lambda>ns. ''('' @ join '', '' (map repr_name ns) @
                                 (if length ns = 1 then '','' else []) @ '')''),
             recursion_limit = 1000\<rparr>"

text \<open>A join node that has no join specification, on a new item.\<close>

definition ex_join_node :: fork_node_item where
  "ex_join_node = (init \<lparr>h_x = 0, h_y = 1\<rparr> \<lparr>h_x = 2, h_y = 3\<rparr>)
     \<lparr>subject := Some \<lparr>is_join_node = True, joinSpec = None\<rparr>\<rparr>"

section \<open>Lemmas on the generator\<close>

lemma class_defs_append [simp]: "class_defs (xs @ ys) = class_defs xs @ class_defs ys"
  by (simp add: class_defs_def)

lemma class_defs_Nil [simp]: "class_defs [] = []"
  by (simp add: class_defs_def)

lemma class_defs_Cons [simp]:
  "class_defs (ch # f) = (case fst ch of ClassDef c \<Rightarrow> [c] | _ \<Rightarrow> []) @ class_defs f"
  by (simp add: class_defs_def)

lemma attribute_names_append [simp]:
  "attribute_names c (xs @ ys) = attribute_names c xs @ attribute_names c ys"
  by (simp add: attribute_names_def)

lemma attribute_names_Nil [simp]: "attribute_names c [] = []"
  by (simp add: attribute_names_def)

lemma attribute_names_Cons [simp]:
  "attribute_names c (ch # f) =
     (case fst ch of Attr c' a \<Rightarrow> (if c' = c then [a] else []) | _ \<Rightarrow> []) @ attribute_names c f"
  by (simp add: attribute_names_def)

lemma type_converter_Inl:
  "type_converter M p = Inl e \<Longrightarrow>
     p_type p = None \<and> typeValue p = None \<and>
     e = ValueError (''ERROR! type is not specified for property '' @ str (p_name p))"
  by (auto simp: type_converter_def split: option.splits if_splits)

lemma write_attribute_lines_new:
  "write_attribute_lines M cls as (f, w) = (r, f', w') \<Longrightarrow>
   sorted (map (\<lambda>a. or_empty (p_name a)) as) \<Longrightarrow>
     \<exists>new. f' = f @ new \<and> class_defs new = [] \<and>
       (\<forall>c. c \<noteq> cls \<longrightarrow> attribute_names c new = []) \<and>
       sorted (attribute_names cls new) \<and>
       set (attribute_names cls new) \<subseteq> (\<lambda>a. or_empty (p_name a)) ` set as \<and>
       (\<forall>e. r = Some e \<longrightarrow> (\<exists>a \<in> set as. \<not> skipped a \<and> type_converter M a = Inl e))"
proof (induction as arbitrary: f w)
  case Nil
  then show ?case by simp
next
  case (Cons a as)
  have sorted_as: "sorted (map (\<lambda>a. or_empty (p_name a)) as)"
    and le: "\<forall>b \<in> set as. or_empty (p_name a) \<le> or_empty (p_name b)"
    using Cons.prems(2) by auto
  show ?case
  proof (cases "skipped a")
    case True
    with Cons.prems(1) have "write_attribute_lines M cls as (f, w) = (r, f', w')" by simp
    from Cons.IH [OF this sorted_as] show ?thesis by auto
  next
    case False
    show ?thesis
    proof (cases "type_converter M a")
      case (Inl e)
      with False Cons.prems(1) show ?thesis by auto
    next
      case (Inr tv)
      show ?thesis
      proof (cases "tv = []")
        case True
        with False Inr Cons.prems(1)
        have "write_attribute_lines M cls as (f, w) = (r, f', w')" by simp
        from Cons.IH [OF this sorted_as] show ?thesis by auto
      next
        case nonempty: False
        let ?ch = "(Attr cls (or_empty (p_name a)), attribute_text a tv)"
        from False Inr nonempty Cons.prems(1)
        have "write_attribute_lines M cls as (f @ [?ch], True) = (r, f', w')" by simp
        from Cons.IH [OF this sorted_as] obtain new where new:
          "f' = (f @ [?ch]) @ new" "class_defs new = []"
          "\<forall>c. c \<noteq> cls \<longrightarrow> attribute_names c new = []"
          "sorted (attribute_names cls new)"
          "set (attribute_names cls new) \<subseteq> (\<lambda>a. or_empty (p_name a)) ` set as"
          "\<forall>e. r = Some e \<longrightarrow> (\<exists>a \<in> set as. \<not> skipped a \<and> type_converter M a = Inl e)"
          by blast
        have "f' = f @ (?ch # new)" using new(1) by simp
        moreover have "class_defs (?ch # new) = []" using new(2) by simp
        moreover have "\<forall>c. c \<noteq> cls \<longrightarrow> attribute_names c (?ch # new) = []"
          using new(3) by simp
        moreover have "sorted (attribute_names cls (?ch # new))"
          using new(4,5) le by auto
        moreover have "set (attribute_names cls (?ch # new)) \<subseteq>
            (\<lambda>a. or_empty (p_name a)) ` set (a # as)"
          using new(5) by auto
        moreover have "\<forall>e. r = Some e \<longrightarrow>
            (\<exists>b \<in> set (a # as). \<not> skipped b \<and> type_converter M b = Inl e)"
          using new(6) by auto
        ultimately show ?thesis by blast
      qed
    qed
  qed
qed

lemma class_defs_operation_lines [simp]: "class_defs (operation_lines cls ops) = []"
  by (induction ops) (simp_all add: operation_lines_def)

lemma attribute_names_operation_lines [simp]:
  "attribute_names c (operation_lines cls ops) = []"
  by (induction ops) (simp_all add: operation_lines_def)

lemma write_attributes_new:
  assumes "write_attributes M cls f = (r, f')"
  shows "\<exists>new. f' = f @ new \<and> class_defs new = [] \<and>
       (\<forall>c. c \<noteq> cls \<longrightarrow> attribute_names c new = []) \<and>
       sorted (attribute_names cls new) \<and>
       (\<forall>e. r = Some e \<longrightarrow>
          (\<exists>a \<in> set (c_attribute (M cls)). \<not> skipped a \<and> type_converter M a = Inl e))"
proof -
  let ?as = "sort_key (\<lambda>a. or_empty (p_name a)) (c_attribute (M cls))"
  obtain r1 f1 w1 where run: "write_attribute_lines M cls ?as (f, False) = (r1, f1, w1)"
    by (cases "write_attribute_lines M cls ?as (f, False)") auto
  have "sorted (map (\<lambda>a. or_empty (p_name a)) ?as)" by simp
  from write_attribute_lines_new [OF run this] obtain new where new:
    "f1 = f @ new" "class_defs new = []"
    "\<forall>c. c \<noteq> cls \<longrightarrow> attribute_names c new = []"
    "sorted (attribute_names cls new)"
    "\<forall>e. r1 = Some e \<longrightarrow> (\<exists>a \<in> set ?as. \<not> skipped a \<and> type_converter M a = Inl e)"
    by blast
  show ?thesis
  proof (cases r1)
    case None
    with assms run new show ?thesis
      by (auto simp: write_attributes_def Let_def split: if_splits)
  next
    case (Some e)
    with assms run new show ?thesis
      by (auto simp: write_attributes_def)
  qed
qed

lemma defs_ordered_append:
  "defs_ordered h S (xs @ ys) = (defs_ordered h S xs \<and> defs_ordered h (S \<union> set xs) ys)"
  by (induction xs arbitrary: S) auto

lemma defs_ordered_mono: "defs_ordered h S xs \<Longrightarrow> S \<subseteq> T \<Longrightarrow> defs_ordered h T xs"
proof (induction xs arbitrary: S T)
  case Nil
  then show ?case by simp
next
  case (Cons c cs)
  from Cons.prems have "defs_ordered h (insert c S) cs" "insert c S \<subseteq> insert c T" by auto
  from Cons.IH [OF this] Cons.prems show ?case by auto
qed

lemma step_refl: "step h s None s"
  by (simp add: step_def)

lemma step_trans:
  assumes "step h s None s1" and "step h s1 r s2"
  shows "step h s r s2"
proof -
  from assms(1) obtain new1 where n1:
    "fst s1 = fst s @ new1" "snd s \<subseteq> snd s1" "snd s1 \<subseteq> snd s \<union> set (class_defs new1)"
    "set (class_defs new1) \<inter> snd s = {}" "set (class_defs new1) \<subseteq> fst ` set h"
    "defs_ordered h (snd s) (class_defs new1)" "distinct (class_defs new1)"
    "set (class_defs new1) \<subseteq> snd s1"
    "\<forall>c. sorted (attribute_names c new1) \<and>
         (c \<notin> set (class_defs new1) \<longrightarrow> attribute_names c new1 = [])"
    unfolding step_def by blast
  from assms(2) obtain new2 where n2:
    "fst s2 = fst s1 @ new2" "snd s1 \<subseteq> snd s2" "snd s2 \<subseteq> snd s1 \<union> set (class_defs new2)"
    "set (class_defs new2) \<inter> snd s1 = {}" "set (class_defs new2) \<subseteq> fst ` set h"
    "defs_ordered h (snd s1) (class_defs new2)" "distinct (class_defs new2)"
    "r = None \<longrightarrow> set (class_defs new2) \<subseteq> snd s2"
    "\<forall>c. sorted (attribute_names c new2) \<and>
         (c \<notin> set (class_defs new2) \<longrightarrow> attribute_names c new2 = [])"
    unfolding step_def by blast
  have disj: "set (class_defs new1) \<inter> set (class_defs new2) = {}"
    using n1(8) n2(4) by auto
  have "fst s2 = fst s @ (new1 @ new2)" using n1(1) n2(1) by simp
  moreover have "snd s \<subseteq> snd s2" using n1(2) n2(2) by auto
  moreover have "snd s2 \<subseteq> snd s \<union> set (class_defs (new1 @ new2))"
    using n1(3) n2(3) by auto
  moreover have "set (class_defs (new1 @ new2)) \<inter> snd s = {}"
    using n1(4) n2(4) n1(2) by auto
  moreover have "set (class_defs (new1 @ new2)) \<subseteq> fst ` set h"
    using n1(5) n2(5) by auto
  moreover have "defs_ordered h (snd s) (class_defs (new1 @ new2))"
    using n1(6) defs_ordered_mono [OF n2(6), of "snd s \<union> set (class_defs new1)"] n1(3)
    by (simp add: defs_ordered_append)
  moreover have "distinct (class_defs (new1 @ new2))"
    using n1(7) n2(7) disj by simp
  moreover have "r = None \<longrightarrow> set (class_defs (new1 @ new2)) \<subseteq> snd s2"
    using n1(8) n2(2) n2(8) by auto
  moreover have "\<forall>c. sorted (attribute_names c (new1 @ new2)) \<and>
         (c \<notin> set (class_defs (new1 @ new2)) \<longrightarrow> attribute_names c (new1 @ new2) = [])"
  proof
    fix c
    show "sorted (attribute_names c (new1 @ new2)) \<and>
         (c \<notin> set (class_defs (new1 @ new2)) \<longrightarrow> attribute_names c (new1 @ new2) = [])"
    proof (cases "c \<in> set (class_defs new1)")
      case True
      with disj have "c \<notin> set (class_defs new2)" by auto
      with n2(9) have "attribute_names c new2 = []" by blast
      with n1(9) True show ?thesis by simp
    next
      case False
      with n1(9) have "attribute_names c new1 = []" by blast
      with n2(9) False show ?thesis by simp
    qed
  qed
  ultimately show ?thesis unfolding step_def by blast
qed

lemma write_class_def_written:
  "write_class_def n M h cls s = (r, s') \<Longrightarrow>
     snd s \<subseteq> snd s' \<and> (r = None \<longrightarrow> cls \<in> snd s')"
  "write_generalizations n M h gs s = (r, s') \<Longrightarrow>
     snd s \<subseteq> snd s' \<and> (r = None \<longrightarrow> set gs \<subseteq> snd s')"
proof (induction n M h cls s and n M h gs s arbitrary: r s' and r s'
       rule: write_class_def_write_generalizations.induct)
  case (1 M h cls s)
  then show ?case by auto
next
  case (2 n M h cls f W)
  show ?case
  proof (cases "cls \<in> W")
    case True
    with "2.prems" show ?thesis by auto
  next
    case False
    show ?thesis
    proof (cases "map_of h cls")
      case None
      with False "2.prems" show ?thesis by auto
    next
      case (Some gens)
      obtain r1 f1 W1 where g: "write_generalizations n M h gens (f, W) = (r1, f1, W1)"
        by (cases "write_generalizations n M h gens (f, W)") auto
      from "2.IH" [OF False Some g] have "W \<subseteq> W1" by simp
      with False Some g "2.prems" show ?thesis
        by (auto split: option.splits sum.splits prod.splits)
    qed
  qed
next
  case (3 n M h s)
  then show ?case by auto
next
  case (4 n M h g gs s)
  obtain r1 s1 where c: "write_class_def n M h g s = (r1, s1)"
    by (cases "write_class_def n M h g s") auto
  note ih1 = "4.IH"(1) [OF c]
  show ?case
  proof (cases r1)
    case None
    with c "4.prems" have rest: "write_generalizations n M h gs s1 = (r, s')" by simp
    from "4.IH"(2) [OF c [symmetric] None rest] ih1 None show ?thesis by auto
  next
    case (Some e)
    with c "4.prems" ih1 show ?thesis by auto
  qed
qed

lemma write_class_def_waiting:
  "write_class_def n M h cls s = (r, s') \<Longrightarrow>
     K \<inter> snd s = {} \<Longrightarrow> \<forall>k \<in> K. \<exists>g \<in> set (parents h k). g \<in> K \<or> g = cls \<Longrightarrow>
     K \<inter> snd s' = {}"
  "write_generalizations n M h gs s = (r, s') \<Longrightarrow>
     K \<inter> snd s = {} \<Longrightarrow> c \<in> K \<Longrightarrow> set gs \<subseteq> set (parents h c) \<Longrightarrow>
     \<forall>k \<in> K - {c}. \<exists>g \<in> set (parents h k). g \<in> K \<Longrightarrow>
     K \<inter> snd s' = {}"
proof (induction n M h cls s and n M h gs s arbitrary: r s' K and r s' K c
       rule: write_class_def_write_generalizations.induct)
  case (1 M h cls s)
  then show ?case by auto
next
  case (2 n M h cls f W)
  note run = "2.prems"(1) and disj = "2.prems"(2) and chain = "2.prems"(3)
  show ?case
  proof (cases "cls \<in> W")
    case True
    with run disj show ?thesis by auto
  next
    case False
    show ?thesis
    proof (cases "map_of h cls")
      case None
      with False run disj show ?thesis by auto
    next
      case (Some gens)
      obtain r1 f1 W1 where g: "write_generalizations n M h gens (f, W) = (r1, f1, W1)"
        by (cases "write_generalizations n M h gens (f, W)") auto
      have par: "parents h cls = gens" using Some by (simp add: parents_def)
      have "insert cls K \<inter> snd (f, W) = {}" using disj False by auto
      moreover have "cls \<in> insert cls K" by simp
      moreover have "set gens \<subseteq> set (parents h cls)" using par by simp
      moreover have "\<forall>k \<in> insert cls K - {cls}. \<exists>g \<in> set (parents h k). g \<in> insert cls K"
        using chain by auto
      ultimately have W1: "insert cls K \<inter> snd (f1, W1) = {}"
        by (rule "2.IH" [OF False Some g])
      show ?thesis
      proof (cases "r = None")
        case failed: False
        with False Some g run have "snd s' = W1"
          by (auto split: option.splits sum.splits prod.splits)
        with W1 show ?thesis by auto
      next
        case True
        with False Some g run have r1: "r1 = None" and s': "snd s' = insert cls W1"
          by (auto split: option.splits sum.splits prod.splits)
        from write_class_def_written(2) [OF g] r1 have sub: "set gens \<subseteq> W1" by simp
        have "cls \<notin> K"
        proof
          assume "cls \<in> K"
          with chain obtain g' where "g' \<in> set (parents h cls)" "g' \<in> K \<or> g' = cls" by blast
          with par sub have "g' \<in> W1" "g' \<in> insert cls K" by auto
          with W1 show False by auto
        qed
        with W1 s' show ?thesis by auto
      qed
    qed
  qed
next
  case (3 n M h s)
  then show ?case by auto
next
  case (4 n M h g gs s)
  note run = "4.prems"(1) and disj = "4.prems"(2) and cK = "4.prems"(3)
    and sub = "4.prems"(4) and chain = "4.prems"(5)
  obtain r1 s1 where c1: "write_class_def n M h g s = (r1, s1)"
    by (cases "write_class_def n M h g s") auto
  have "\<forall>k \<in> K. \<exists>g' \<in> set (parents h k). g' \<in> K \<or> g' = g"
  proof
    fix k assume "k \<in> K"
    show "\<exists>g' \<in> set (parents h k). g' \<in> K \<or> g' = g"
    proof (cases "k = c")
      case True
      with sub show ?thesis by auto
    next
      case False
      with \<open>k \<in> K\<close> chain show ?thesis by auto
    qed
  qed
  from "4.IH"(1) [OF c1 disj this] have d1: "K \<inter> snd s1 = {}" .
  show ?case
  proof (cases r1)
    case None
    with c1 run have rest: "write_generalizations n M h gs s1 = (r, s')" by simp
    have "set gs \<subseteq> set (parents h c)" using sub by auto
    from "4.IH"(2) [OF c1 [symmetric] None rest d1 cK this chain] show ?thesis .
  next
    case (Some e)
    with c1 run d1 show ?thesis by auto
  qed
qed

lemma write_generalizations_not_self:
  assumes "write_generalizations n M h gens (f, W) = (r1, f1, W1)"
    and "cls \<notin> W" and "map_of h cls = Some gens"
  shows "cls \<notin> W1"
proof -
  have "{cls} \<inter> snd (f1, W1) = {}"
    by (rule write_class_def_waiting(2) [OF assms(1), of "{cls}" cls])
       (use assms in \<open>auto simp: parents_def\<close>)
  then show ?thesis by simp
qed

lemma write_class_def_step:
  "write_class_def n M h cls s = (r, s') \<Longrightarrow> step h s r s'"
  "write_generalizations n M h gs s = (r, s') \<Longrightarrow> step h s r s'"
proof (induction n M h cls s and n M h gs s arbitrary: r s' and r s'
       rule: write_class_def_write_generalizations.induct)
  case (1 M h cls s)
  then show ?case by (auto simp: step_def)
next
  case (2 n M h cls f W)
  note run = "2.prems"
  show ?case
  proof (cases "cls \<in> W")
    case True
    with run show ?thesis by (auto simp: step_def)
  next
    case False
    show ?thesis
    proof (cases "map_of h cls")
      case None
      with False run show ?thesis by (auto simp: step_def)
    next
      case (Some gens)
      obtain r1 f1 W1 where g: "write_generalizations n M h gens (f, W) = (r1, f1, W1)"
        by (cases "write_generalizations n M h gens (f, W)") auto
      from "2.IH" [OF False Some g] have st1: "step h (f, W) r1 (f1, W1)" .
      show ?thesis
      proof (cases r1)
        case (Some e)
        with False \<open>map_of h cls = Some gens\<close> g run st1 show ?thesis by auto
      next
        case None
        note r1 = None
        show ?thesis
        proof (cases "class_text M cls gens")
          case (Inl e)
          with False \<open>map_of h cls = Some gens\<close> g run r1
          have "r = Some e" "s' = (f1, W1)" by auto
          with st1 r1 show ?thesis by (auto simp: step_def)
        next
          case (Inr line)
          obtain r2 f2 where wa: "write_attributes M cls (f1 @ [(ClassDef cls, line)]) = (r2, f2)"
            by (cases "write_attributes M cls (f1 @ [(ClassDef cls, line)])") auto
          from write_attributes_new [OF wa] obtain newA where newA:
            "f2 = (f1 @ [(ClassDef cls, line)]) @ newA" "class_defs newA = []"
            "\<forall>c. c \<noteq> cls \<longrightarrow> attribute_names c newA = []"
            "sorted (attribute_names cls newA)"
            by blast
          from False \<open>map_of h cls = Some gens\<close> g run r1 Inr wa
          have res: "r = r2" "fst s' = f2" "snd s' = (if r2 = None then insert cls W1 else W1)"
            by (auto split: option.splits)
          from write_class_def_written(2) [OF g] r1 have gens_written: "set gens \<subseteq> W1" by simp
          from write_generalizations_not_self [OF g False \<open>map_of h cls = Some gens\<close>]
          have self: "cls \<notin> W1" .
          have key: "cls \<in> fst ` set h"
            using \<open>map_of h cls = Some gens\<close> by (metis map_of_eq_None_iff option.distinct(1))
          have "step h (f1, W1) r s'"
            unfolding step_def
          proof (intro exI [of _ "(ClassDef cls, line) # newA"] conjI allI)
            show "fst s' = fst (f1, W1) @ (ClassDef cls, line) # newA"
              using res newA by simp
            show "snd (f1, W1) \<subseteq> snd s'" using res by auto
            show "snd s' \<subseteq> snd (f1, W1) \<union> set (class_defs ((ClassDef cls, line) # newA))"
              using res newA by auto
            show "set (class_defs ((ClassDef cls, line) # newA)) \<inter> snd (f1, W1) = {}"
              using newA self by simp
            show "set (class_defs ((ClassDef cls, line) # newA)) \<subseteq> fst ` set h"
              using newA key by simp
            show "defs_ordered h (snd (f1, W1)) (class_defs ((ClassDef cls, line) # newA))"
              using newA gens_written \<open>map_of h cls = Some gens\<close> by (simp add: parents_def)
            show "distinct (class_defs ((ClassDef cls, line) # newA))"
              using newA by simp
            show "r = None \<longrightarrow> set (class_defs ((ClassDef cls, line) # newA)) \<subseteq> snd s'"
              using newA res by simp
          next
            fix c
            show "sorted (attribute_names c ((ClassDef cls, line) # newA))"
              using newA by (cases "c = cls") simp_all
            show "c \<notin> set (class_defs ((ClassDef cls, line) # newA)) \<longrightarrow>
                  attribute_names c ((ClassDef cls, line) # newA) = []"
              using newA by simp
          qed
          with st1 r1 show ?thesis by (auto intro: step_trans)
        qed
      qed
    qed
  qed
next
  case (3 n M h s)
  then show ?case by (auto simp: step_refl)
next
  case (4 n M h g gs s)
  obtain r1 s1 where c1: "write_class_def n M h g s = (r1, s1)"
    by (cases "write_class_def n M h g s") auto
  from "4.IH"(1) [OF c1] have st1: "step h s r1 s1" .
  show ?case
  proof (cases r1)
    case None
    with c1 "4.prems" have rest: "write_generalizations n M h gs s1 = (r, s')" by simp
    from "4.IH"(2) [OF c1 [symmetric] None rest] st1 None show ?thesis
      by (auto intro: step_trans)
  next
    case (Some e)
    with c1 "4.prems" st1 show ?thesis by auto
  qed
qed

lemma write_class_def_error:
  "write_class_def n M h cls s = (Some (ValueError m), s') \<Longrightarrow>
     \<exists>c a. c \<in> fst ` set h \<and> a \<in> set (c_attribute (M c)) \<and>
           type_converter M a = Inl (ValueError m)"
  "write_generalizations n M h gs s = (Some (ValueError m), s') \<Longrightarrow>
     \<exists>c a. c \<in> fst ` set h \<and> a \<in> set (c_attribute (M c)) \<and>
           type_converter M a = Inl (ValueError m)"
proof (induction n M h cls s and n M h gs s arbitrary: s' and s'
       rule: write_class_def_write_generalizations.induct)
  case (1 M h cls s)
  then show ?case by auto
next
  case (2 n M h cls f W)
  note run = "2.prems"
  show ?case
  proof (cases "cls \<in> W")
    case True
    with run show ?thesis by auto
  next
    case False
    show ?thesis
    proof (cases "map_of h cls")
      case None
      with False run show ?thesis by auto
    next
      case (Some gens)
      have key: "cls \<in> fst ` set h"
        using Some by (metis map_of_eq_None_iff option.distinct(1))
      obtain r1 f1 W1 where g: "write_generalizations n M h gens (f, W) = (r1, f1, W1)"
        by (cases "write_generalizations n M h gens (f, W)") auto
      show ?thesis
      proof (cases r1)
        case (Some e)
        with False \<open>map_of h cls = Some gens\<close> g run
        have "write_generalizations n M h gens (f, W) = (Some (ValueError m), f1, W1)" by auto
        from "2.IH" [OF False \<open>map_of h cls = Some gens\<close> this] show ?thesis .
      next
        case None
        show ?thesis
        proof (cases "class_text M cls gens")
          case (Inl e)
          with False \<open>map_of h cls = Some gens\<close> g run None show ?thesis
            by (auto simp: class_text_def split: if_splits)
        next
          case (Inr line)
          obtain r2 f2 where wa: "write_attributes M cls (f1 @ [(ClassDef cls, line)]) = (r2, f2)"
            by (cases "write_attributes M cls (f1 @ [(ClassDef cls, line)])") auto
          with False \<open>map_of h cls = Some gens\<close> g run None Inr
          have "r2 = Some (ValueError m)" by (auto split: option.splits)
          with write_attributes_new [OF wa] key show ?thesis by blast
        qed
      qed
    qed
  qed
next
  case (3 n M h s)
  then show ?case by auto
next
  case (4 n M h g gs s)
  obtain r1 s1 where c1: "write_class_def n M h g s = (r1, s1)"
    by (cases "write_class_def n M h g s") auto
  show ?case
  proof (cases r1)
    case None
    with c1 "4.prems" have "write_generalizations n M h gs s1 = (Some (ValueError m), s')"
      by simp
    from "4.IH"(2) [OF c1 [symmetric] None this] show ?thesis .
  next
    case (Some e)
    with c1 "4.prems" have "write_class_def n M h g s = (Some (ValueError m), s1)" by auto
    from "4.IH"(1) [OF this] show ?thesis .
  qed
qed

lemma c_name_sort_attributes [simp]: "c_name (sort_attributes M cls c) = c_name (M c)"
  by (simp add: sort_attributes_def)

lemma type_converter_sort_attributes:
  "type_converter (sort_attributes M cls) a = type_converter M a"
  by (simp add: type_converter_def split: option.splits)

lemma set_attribute_sort_attributes:
  "set (c_attribute (sort_attributes M cls c)) = set (c_attribute (M c))"
  by (simp add: sort_attributes_def)

lemma write_class_defs_step:
  "write_class_defs n h keys (M, s) = (r, M', s') \<Longrightarrow>
     step h s r s' \<and> (r = None \<longrightarrow> set keys \<subseteq> snd s') \<and>
     (\<forall>c. c_name (M' c) = c_name (M c)) \<and>
     (\<forall>c. set (c_attribute (M' c)) = set (c_attribute (M c))) \<and>
     (\<forall>a. type_converter M' a = type_converter M a) \<and>
     (\<forall>m. r = Some (ValueError m) \<longrightarrow>
        (\<exists>c a. c \<in> fst ` set h \<and> a \<in> set (c_attribute (M c)) \<and>
               type_converter M a = Inl (ValueError m)))"
proof (induction keys arbitrary: M s)
  case Nil
  then show ?case by (auto simp: step_refl)
next
  case (Cons cls keys)
  let ?M1 = "sort_attributes M cls"
  obtain r1 s1 where c1: "write_class_def n ?M1 h cls s = (r1, s1)"
    by (cases "write_class_def n ?M1 h cls s") auto
  note st1 = write_class_def_step(1) [OF c1]
  note wr1 = write_class_def_written(1) [OF c1]
  have same: "\<forall>c. c_name (?M1 c) = c_name (M c)"
    "\<forall>c. set (c_attribute (?M1 c)) = set (c_attribute (M c))"
    "\<forall>a. type_converter ?M1 a = type_converter M a"
    by (simp_all add: set_attribute_sort_attributes type_converter_sort_attributes)
  show ?case
  proof (cases r1)
    case None
    with c1 Cons.prems have rest: "write_class_defs n h keys (?M1, s1) = (r, M', s')" by simp
    note ih = Cons.IH [OF rest]
    from ih have "step h s1 r s'" by blast
    with st1 None have "step h s r s'" by (auto intro: step_trans)
    moreover have "r = None \<longrightarrow> set (cls # keys) \<subseteq> snd s'"
    proof
      assume "r = None"
      with ih have "set keys \<subseteq> snd s'" by blast
      moreover from ih have "snd s1 \<subseteq> snd s'" by (auto simp: step_def)
      ultimately show "set (cls # keys) \<subseteq> snd s'" using wr1 None by auto
    qed
    moreover from ih same have "\<forall>c. c_name (M' c) = c_name (M c)" by simp
    moreover from ih same have "\<forall>c. set (c_attribute (M' c)) = set (c_attribute (M c))"
      by simp
    moreover from ih same have "\<forall>a. type_converter M' a = type_converter M a" by simp
    moreover from ih same have "\<forall>m. r = Some (ValueError m) \<longrightarrow>
        (\<exists>c a. c \<in> fst ` set h \<and> a \<in> set (c_attribute (M c)) \<and>
               type_converter M a = Inl (ValueError m))" by simp
    ultimately show ?thesis by blast
  next
    case (Some e)
    with c1 Cons.prems have res: "r = Some e" "M' = ?M1" "s' = s1" by auto
    have "\<forall>m. r = Some (ValueError m) \<longrightarrow>
        (\<exists>c a. c \<in> fst ` set h \<and> a \<in> set (c_attribute (M c)) \<and>
               type_converter M a = Inl (ValueError m))"
    proof (intro allI impI)
      fix m assume "r = Some (ValueError m)"
      with res Some c1 have "write_class_def n ?M1 h cls s = (Some (ValueError m), s1)" by simp
      from write_class_def_error(1) [OF this] same
      show "\<exists>c a. c \<in> fst ` set h \<and> a \<in> set (c_attribute (M c)) \<and>
               type_converter M a = Inl (ValueError m)" by simp
    qed
    with res Some st1 same show ?thesis by simp
  qed
qed

lemma appends_refl: "appends P f f"
  by (simp add: appends_def)

lemma appends_snoc: "appends P (f @ [x]) f' \<Longrightarrow> P (fst x) \<Longrightarrow> appends P f f'"
  by (auto simp: appends_def)

lemma appends_trans: "appends P f f1 \<Longrightarrow> appends P f1 f2 \<Longrightarrow> appends P f f2"
  by (auto simp: appends_def)

lemma appends_no_defs:
  assumes "appends P f f'" and "\<And>c. \<not> P (ClassDef c)" and "\<And>c a. \<not> P (Attr c a)"
  shows "\<exists>new. f' = f @ new \<and> class_defs new = [] \<and> (\<forall>c. attribute_names c new = [])"
proof -
  from assms(1) obtain new where new: "f' = f @ new" "\<forall>ch \<in> set new. P (fst ch)"
    by (auto simp: appends_def)
  have "class_defs new = [] \<and> (\<forall>c. attribute_names c new = [])" using new(2)
  proof (induction new)
    case Nil
    then show ?case by simp
  next
    case (Cons ch new)
    then have "P (fst ch)" by simp
    with assms(2,3) have "(case fst ch of ClassDef c \<Rightarrow> [c] | _ \<Rightarrow> []) = []"
      "\<And>c. (case fst ch of Attr c' a \<Rightarrow> (if c' = c then [a] else []) | _ \<Rightarrow> []) = []"
      by (cases "fst ch"; auto)+
    with Cons show ?case by simp
  qed
  with new(1) show ?thesis by blast
qed

lemma is_prop_simps [simp]:
  "is_prop (Prop c)" "is_prop (Subset c)" "is_prop Blank"
  "\<not> is_prop (ClassDef c)" "\<not> is_prop (Attr c a)" "\<not> is_prop Header"
  by (simp_all add: is_prop_def)

lemma write_property_lines_appends:
  "write_property_lines E M cls en as (f, p, v) = (r, f', p', v') \<Longrightarrow> appends is_prop f f'"
proof (induction as arbitrary: f p v)
  case Nil
  then show ?case by (simp add: appends_refl)
next
  case (Cons a as)
  have snoc: "appends is_prop f f'"
    if "write_property_lines E M cls en as (f @ [(Prop cls, x)], p, v) = (r, f', p', v')"
    for x p v
    using appends_snoc [OF Cons.IH [OF that]] by simp
  from Cons.prems show ?case
    by (auto simp: Let_def appends_refl split: if_splits sum.splits option.splits list.splits
             intro: Cons.IH snoc)
qed

lemma write_property_lines_error:
  "write_property_lines E M cls en as (f, p, v) = (Some (ValueError m), s') \<Longrightarrow>
     \<exists>a \<in> set as. type_converter M a = Inl (ValueError m)"
proof (induction as arbitrary: f p v)
  case Nil
  then show ?case by simp
next
  case (Cons a as)
  from Cons.prems show ?case
    by (auto simp: Let_def split: if_splits sum.splits option.splits list.splits
             dest: Cons.IH)
qed

lemma write_properties_appends:
  "write_properties E M cls en s = (r, s') \<Longrightarrow> appends is_prop (fst s) (fst s')"
  by (auto simp: write_properties_def split: prod.splits dest: write_property_lines_appends)

lemma write_properties_error:
  "write_properties E M cls en s = (Some (ValueError m), s') \<Longrightarrow>
     \<exists>a \<in> set (c_attribute (M cls)). type_converter M a = Inl (ValueError m)"
  by (auto simp: write_properties_def split: prod.splits dest: write_property_lines_error)

lemma write_all_properties_appends:
  "write_all_properties E M en keys s = (r, s') \<Longrightarrow> appends is_prop (fst s) (fst s')"
proof (induction keys arbitrary: s)
  case Nil
  then show ?case by (simp add: appends_refl)
next
  case (Cons cls keys)
  obtain r1 s1 where w: "write_properties E M cls en s = (r1, s1)"
    by (cases "write_properties E M cls en s") auto
  note a1 = write_properties_appends [OF w]
  show ?case
  proof (cases r1)
    case None
    with Cons.prems w have "write_all_properties E M en keys s1 = (r, s')" by simp
    from appends_trans [OF a1 Cons.IH [OF this]] show ?thesis .
  next
    case (Some e)
    with Cons.prems w a1 show ?thesis by auto
  qed
qed

lemma write_all_properties_error:
  "write_all_properties E M en keys s = (Some (ValueError m), s') \<Longrightarrow>
     \<exists>c a. c \<in> set keys \<and> a \<in> set (c_attribute (M c)) \<and>
           type_converter M a = Inl (ValueError m)"
proof (induction keys arbitrary: s)
  case Nil
  then show ?case by simp
next
  case (Cons cls keys)
  obtain r1 s1 where w: "write_properties E M cls en s = (r1, s1)"
    by (cases "write_properties E M cls en s") auto
  show ?case
  proof (cases r1)
    case None
    with Cons.prems w have "write_all_properties E M en keys s1 = (Some (ValueError m), s')"
      by simp
    from Cons.IH [OF this] show ?thesis by auto
  next
    case (Some e)
    with Cons.prems w have "write_properties E M cls en s = (Some (ValueError m), s1)" by auto
    from write_properties_error [OF this] show ?thesis by auto
  qed
qed

lemma write_subset_slots_error:
  "write_subset_slots M cls a slots f = (r, f') \<Longrightarrow> r = None \<or> r = Some AttributeError"
  by (induction slots arbitrary: f) (auto split: option.splits if_splits)

lemma write_subset_slots_appends:
  "write_subset_slots M cls a slots f = (r, f') \<Longrightarrow> appends is_prop f f'"
proof (induction slots arbitrary: f)
  case Nil
  then show ?case by (auto simp: appends_refl)
next
  case (Cons sl slots)
  have snoc: "appends is_prop f f'"
    if "write_subset_slots M cls a slots (f @ [(Subset cls, x)]) = (r, f')" for x
    using appends_snoc [of is_prop f "(Subset cls, x)" f'] Cons.IH [OF that]
    by simp
  from Cons.prems show ?case
    by (auto simp: appends_refl split: option.splits if_splits dest: Cons.IH snoc)
qed

lemma write_subsets_of_appends:
  "write_subsets_of M cls as f = (r, f') \<Longrightarrow>
     appends is_prop f f' \<and> (r = None \<or> r = Some AttributeError)"
proof (induction as arbitrary: f)
  case Nil
  then show ?case by (auto simp: appends_refl)
next
  case (Cons a as)
  obtain r1 f1 where w: "write_subset_slots M cls a (p_slots a) f = (r1, f1)"
    by (cases "write_subset_slots M cls a (p_slots a) f") auto
  note a1 = write_subset_slots_appends [OF w] write_subset_slots_error [OF w]
  show ?case
  proof (cases r1)
    case None
    with Cons.prems w have "write_subsets_of M cls as f1 = (r, f')" by simp
    from Cons.IH [OF this] a1 show ?thesis by (auto intro: appends_trans)
  next
    case (Some e)
    with Cons.prems w a1 show ?thesis by auto
  qed
qed

lemma write_all_subsets_appends:
  "write_all_subsets M keys f = (r, f') \<Longrightarrow>
     appends is_prop f f' \<and> (r = None \<or> r = Some AttributeError)"
proof (induction keys arbitrary: f)
  case Nil
  then show ?case by (auto simp: appends_refl)
next
  case (Cons cls keys)
  obtain r1 f1 where w: "write_subsets M cls f = (r1, f1)"
    by (cases "write_subsets M cls f") auto
  then have "write_subsets_of M cls (c_attribute (M cls)) f = (r1, f1)"
    by (simp add: write_subsets_def)
  note a1 = write_subsets_of_appends [OF this]
  show ?case
  proof (cases r1)
    case None
    with Cons.prems w have "write_all_subsets M keys f1 = (r, f')" by simp
    from Cons.IH [OF this] a1 show ?thesis by (auto intro: appends_trans)
  next
    case (Some e)
    with Cons.prems w a1 show ?thesis by auto
  qed
qed

lemma get_class_extensions_of_meta:
  "get_class_extensions_of as = Inr metas \<Longrightarrow> None \<notin> set metas \<Longrightarrow>
     map the metas =
       concat (map (\<lambda>a. case p_association a of
                          None \<Rightarrow> []
                        | Some assoc \<Rightarrow>
                            if p_name a = Some ''baseClass'' then
                              (case ownedEnd assoc of
                                 None \<Rightarrow> []
                               | Some e \<Rightarrow> (case end_class e of None \<Rightarrow> [] | Some c \<Rightarrow> [c]))
                            else []) as)"
  by (induction as arbitrary: metas)
     (auto split: option.splits if_splits sum.splits)

lemma get_class_extensions_of_total:
  "\<forall>a \<in> set as.
      case p_association a of
        None \<Rightarrow> True
      | Some assoc \<Rightarrow>
          p_name a = Some ''baseClass'' \<longrightarrow>
          (case ownedEnd assoc of None \<Rightarrow> False | Some e \<Rightarrow> end_class e \<noteq> None) \<Longrightarrow>
   \<exists>metas. get_class_extensions_of as = Inr metas \<and> None \<notin> set metas"
  by (induction as) (auto split: option.splits)

lemma hierarchy_entry_value:
  assumes "hierarchy_entry M cls = Inr ps"
  shows "ps = sort_key (\<lambda>e. or_empty (c_name (M e))) (general (M cls) @ meta_classes M cls)"
proof -
  from assms obtain metas where m: "get_class_extensions M cls = Inr metas" "None \<notin> set metas"
    and s: "sorted_by_name M (general (M cls) @ map the metas) = Inr ps"
    by (auto simp: hierarchy_entry_def Let_def split: sum.splits if_splits)
  from m have "map the metas = meta_classes M cls"
    unfolding meta_classes_def get_class_extensions_def
    by (rule get_class_extensions_of_meta)
  with s show ?thesis by (auto simp: sorted_by_name_def split: if_splits)
qed

lemma hierarchy_entry_total:
  assumes "parents_set M cls"
  shows "\<exists>ps. hierarchy_entry M cls = Inr ps"
proof -
  from assms get_class_extensions_of_total [of "c_attribute (M cls)"]
  obtain metas where m: "get_class_extensions M cls = Inr metas" "None \<notin> set metas"
    by (auto simp: parents_set_def get_class_extensions_def)
  then have eq: "map the metas = meta_classes M cls"
    unfolding meta_classes_def get_class_extensions_def
    by (rule get_class_extensions_of_meta)
  from assms have "\<not> (2 \<le> length (general (M cls) @ meta_classes M cls) \<and>
      (\<exists>x \<in> set (general (M cls) @ meta_classes M cls). c_name (M x) = None))"
    unfolding parents_set_def by blast
  with m eq show ?thesis
    by (auto simp: hierarchy_entry_def sorted_by_name_def Let_def)
qed

lemma create_class_hierarchy_from_keys:
  "create_class_hierarchy_from M cs h0 = Inr h \<Longrightarrow>
     fst ` set h = fst ` set h0 \<union> set cs \<and>
     (distinct (map fst h0) \<longrightarrow> distinct (map fst h)) \<and>
     (\<forall>c \<in> set cs. \<exists>ps. hierarchy_entry M c = Inr ps \<and> map_of h c = Some ps) \<and>
     (\<forall>c. c \<notin> set cs \<longrightarrow> map_of h c = map_of h0 c)"
proof (induction cs arbitrary: h0)
  case Nil
  then show ?case by simp
next
  case (Cons c cs)
  from Cons.prems obtain ps where e: "hierarchy_entry M c = Inr ps"
    and rest: "create_class_hierarchy_from M cs (AList.update c ps h0) = Inr h"
    by (auto split: sum.splits)
  note ih = Cons.IH [OF rest]
  have "fst ` set h = fst ` set h0 \<union> set (c # cs)"
    using ih by (auto simp: dom_update)
  moreover have "distinct (map fst h0) \<longrightarrow> distinct (map fst h)"
    using ih by (simp add: distinct_update)
  moreover have "\<forall>c' \<in> set (c # cs). \<exists>ps. hierarchy_entry M c' = Inr ps \<and> map_of h c' = Some ps"
  proof
    fix c' assume "c' \<in> set (c # cs)"
    show "\<exists>ps. hierarchy_entry M c' = Inr ps \<and> map_of h c' = Some ps"
    proof (cases "c' \<in> set cs")
      case True
      with ih show ?thesis by blast
    next
      case False
      with \<open>c' \<in> set (c # cs)\<close> have "c' = c" by simp
      with False ih e show ?thesis by (simp add: update_conv')
    qed
  qed
  moreover have "\<forall>c'. c' \<notin> set (c # cs) \<longrightarrow> map_of h c' = map_of h0 c'"
    using ih by (simp add: update_conv')
  ultimately show ?case by blast
qed

lemma create_class_hierarchy_from_total:
  "\<forall>c \<in> set cs. \<exists>ps. hierarchy_entry M c = Inr ps \<Longrightarrow>
     \<exists>h. create_class_hierarchy_from M cs h0 = Inr h"
  by (induction cs arbitrary: h0) auto

lemma update_keys_sorted:
  "map fst (AList.update c ps h0) = (if c \<in> fst ` set h0 then map fst h0 else map fst h0 @ [c])"
  by (induction h0) auto

lemma create_class_hierarchy_from_sorted:
  "create_class_hierarchy_from M cs h0 = Inr h \<Longrightarrow>
     sorted (map k (map fst h0 @ cs)) \<Longrightarrow> sorted (map k (map fst h))"
proof (induction cs arbitrary: h0)
  case Nil
  then show ?case by simp
next
  case (Cons c cs)
  from Cons.prems obtain ps where
    rest: "create_class_hierarchy_from M cs (AList.update c ps h0) = Inr h"
    by (auto split: sum.splits)
  have "sorted (map k (map fst (AList.update c ps h0) @ cs))"
    using Cons.prems(2) by (auto simp: update_keys_sorted sorted_append)
  from Cons.IH [OF rest this] show ?case .
qed

lemma starts_with_tilde:
  "starts_with ''~'' s = (case s of [] \<Rightarrow> False | c # cs \<Rightarrow> c = CHR ''~'')"
  by (cases s) auto

lemma drop_tilde_filter:
  "drop_tilde M cs = Inr r \<Longrightarrow>
     r = filter (\<lambda>c. \<not> starts_with ''~'' (or_empty (c_name (M c)))) cs"
  by (induction cs arbitrary: r)
     (auto simp: or_empty_def split: option.splits list.splits sum.splits)

lemma drop_tilde_total:
  "\<forall>c \<in> set cs. truthy (c_name (M c)) \<Longrightarrow> \<exists>r. drop_tilde M cs = Inr r"
  by (induction cs) (auto simp: truthy_def split: option.splits list.splits)

lemma set_update_subset: "set (AList.update k v al) \<subseteq> insert (k, v) (set al)"
  by (induction al) auto

lemma fold_update_enumerations:
  "fst ` set (fold (\<lambda>cls d. AList.update (k cls) cls d) ks d0) = fst ` set d0 \<union> k ` set ks \<and>
   set (fold (\<lambda>cls d. AList.update (k cls) cls d) ks d0) \<subseteq> set d0 \<union> (\<lambda>c. (k c, c)) ` set ks"
proof (induction ks arbitrary: d0)
  case Nil
  then show ?case by simp
next
  case (Cons c ks)
  from Cons.IH [of "AList.update (k c) c d0"] set_update_subset [of "k c" c d0]
  show ?case by (auto simp: dom_update)
qed

lemma select_classes_value:
  assumes "select_classes M classes = Inr (cs, en)"
  shows "cs = sort_key (\<lambda>c. or_empty (c_name (M c))) (filter (kept M) classes)"
    and "en = fold (\<lambda>cls d. AList.update (or_empty (c_name (M cls))) cls d)
           (filter (\<lambda>cls. contains ''Kind'' (or_empty (c_name (M cls)))) classes) []"
    and "\<forall>c \<in> set classes. c_name (M c) \<noteq> None"
proof -
  from assms obtain c1 c2 c3 where
    f: "find_enumerations M classes = Inr (c1, en)" and
    g: "filter_out_gaphor_profile M c1 = Inr c2" and
    d: "drop_tilde M c2 = Inr c3" and
    s: "sorted_by_name M c3 = Inr cs"
    by (auto simp: select_classes_def split: sum.splits prod.splits)
  from f show "en = fold (\<lambda>cls d. AList.update (or_empty (c_name (M cls))) cls d)
           (filter (\<lambda>cls. contains ''Kind'' (or_empty (c_name (M cls)))) classes) []"
    and "\<forall>c \<in> set classes. c_name (M c) \<noteq> None"
    by (auto simp: find_enumerations_def split: if_splits)
  from f have c1: "c1 = filter (\<lambda>cls. \<not> contains ''Kind'' (or_empty (c_name (M cls)))) classes"
    by (auto simp: find_enumerations_def split: if_splits)
  from g have c2: "c2 = filter (\<lambda>cls. hd (qualifiedName (M cls)) \<noteq> Some ''Gaphor Profile'') c1"
    by (auto simp: filter_out_gaphor_profile_def split: if_splits)
  from d have c3: "c3 = filter (\<lambda>c. \<not> starts_with ''~'' (or_empty (c_name (M c)))) c2"
    by (rule drop_tilde_filter)
  from s have "cs = sort_key (\<lambda>c. or_empty (c_name (M c))) c3"
    by (auto simp: sorted_by_name_def split: if_splits)
  with c1 c2 c3 show "cs = sort_key (\<lambda>c. or_empty (c_name (M c))) (filter (kept M) classes)"
    by (simp add: kept_def conj_commute conj_left_commute cong: filter_cong)
qed

lemma select_classes_total:
  assumes "\<forall>c \<in> set classes. truthy (c_name (M c)) \<and> qualifiedName (M c) \<noteq> []"
  shows "\<exists>cs en. select_classes M classes = Inr (cs, en)"
proof -
  from assms have names: "\<forall>c \<in> set classes. c_name (M c) \<noteq> None"
    by (fastforce simp: truthy_def split: option.splits)
  then obtain c1 en where f: "find_enumerations M classes = Inr (c1, en)"
    and c1: "set c1 \<subseteq> set classes"
    by (auto simp: find_enumerations_def)
  from assms c1 have "\<not> (\<exists>cls \<in> set c1. qualifiedName (M cls) = [])" by auto
  then have "filter_out_gaphor_profile M c1 =
      Inr (filter (\<lambda>cls. hd (qualifiedName (M cls)) \<noteq> Some ''Gaphor Profile'') c1)"
    by (simp add: filter_out_gaphor_profile_def)
  with c1 obtain c2 where g: "filter_out_gaphor_profile M c1 = Inr c2"
    and c2: "set c2 \<subseteq> set classes"
    by auto
  from assms c2 have "\<forall>c \<in> set c2. truthy (c_name (M c))" by auto
  from drop_tilde_total [OF this] obtain c3 where d: "drop_tilde M c2 = Inr c3" by blast
  from drop_tilde_filter [OF d] c2 have "set c3 \<subseteq> set classes" by auto
  with names have "\<not> (\<exists>x \<in> set c3. c_name (M x) = None)" by auto
  then have "sorted_by_name M c3 = Inr (sort_key (\<lambda>x. or_empty (c_name (M x))) c3)"
    by (simp add: sorted_by_name_def)
  then obtain cs where "sorted_by_name M c3 = Inr cs" by blast
  with f g d show ?thesis by (simp add: select_classes_def)
qed

lemma select_classes_error:
  "select_classes M classes = Inl e \<Longrightarrow> e = TypeError \<or> e = IndexError"
proof -
  have d: "drop_tilde M cs = Inl e \<Longrightarrow> e = TypeError \<or> e = IndexError" for cs
    by (induction cs) (auto split: option.splits list.splits sum.splits)
  assume "select_classes M classes = Inl e"
  then show ?thesis
    by (auto simp: select_classes_def find_enumerations_def filter_out_gaphor_profile_def
                   sorted_by_name_def
             split: sum.splits prod.splits if_splits dest: d)
qed

lemma hierarchy_entry_error:
  "hierarchy_entry M cls = Inl e \<Longrightarrow> e = TypeError \<or> e = AttributeError"
proof -
  have g: "get_class_extensions_of as = Inl e \<Longrightarrow> e = AttributeError" for as
    by (induction as) (auto split: option.splits sum.splits if_splits)
  assume "hierarchy_entry M cls = Inl e"
  then show ?thesis
    by (auto simp: hierarchy_entry_def get_class_extensions_def sorted_by_name_def Let_def
             split: sum.splits if_splits dest: g)
qed

lemma create_class_hierarchy_from_error:
  "create_class_hierarchy_from M cs h0 = Inl e \<Longrightarrow> e = TypeError \<or> e = AttributeError"
  by (induction cs arbitrary: h0) (auto split: sum.splits dest: hierarchy_entry_error)

lemma create_class_hierarchy_keys:
  assumes "create_class_hierarchy M cs = Inr h"
  shows "fst ` set h = set cs" and "distinct (map fst h)" and "set (map fst h) = set cs"
    and "\<forall>c \<in> set cs. map_of h c =
           Some (sort_key (\<lambda>e. or_empty (c_name (M e))) (general (M c) @ meta_classes M c))"
proof -
  from assms have run: "create_class_hierarchy_from M cs [] = Inr h"
    by (simp add: create_class_hierarchy_def)
  note k = create_class_hierarchy_from_keys [OF run]
  from k show "fst ` set h = set cs" and "distinct (map fst h)" by simp_all
  then show "set (map fst h) = set cs" by simp
  show "\<forall>c \<in> set cs. map_of h c =
           Some (sort_key (\<lambda>e. or_empty (c_name (M e))) (general (M c) @ meta_classes M c))"
  proof
    fix c assume "c \<in> set cs"
    with k obtain ps where "hierarchy_entry M c = Inr ps" "map_of h c = Some ps" by blast
    with hierarchy_entry_value show "map_of h c =
           Some (sort_key (\<lambda>e. or_empty (c_name (M e))) (general (M c) @ meta_classes M c))"
      by simp
  qed
qed

lemma class_defs_import_lines [simp]: "class_defs (import_lines M cs) = []"
  by (induction cs) (simp_all add: import_lines_def)

lemma attribute_names_import_lines [simp]: "attribute_names c (import_lines M cs) = []"
  by (induction cs) (simp_all add: import_lines_def)

text \<open>The stages of a run of \<open>generate\<close>.\<close>

lemma generate_run:
  assumes "generate E M classes = (r, st)"
  shows "(outfile st = None \<and>
          (\<exists>e. r = Some e \<and> (e = TypeError \<or> e = IndexError \<or> e = AttributeError))) \<or>
         (\<exists>cs en h r1 M1 f1 W1 f.
            select_classes M classes = Inr (cs, en) \<and>
            create_class_hierarchy M cs = Inr h \<and>
            write_class_defs (recursion_limit E) h (map fst h)
              (M, (Header, header) # import_lines M (filter_uml_classes E M cs),
               set (filter_uml_classes E M cs)) = (r1, M1, f1, W1) \<and>
            outfile st = Some f \<and> appends is_prop f1 f \<and>
            (r1 \<noteq> None \<longrightarrow> r = r1 \<and> f = f1) \<and> (r = None \<longrightarrow> r1 = None) \<and>
            (\<forall>m. r = Some (ValueError m) \<longrightarrow> r1 = Some (ValueError m) \<or>
               (\<exists>c a. c \<in> set (map fst h) \<and> a \<in> set (c_attribute (M1 c)) \<and>
                      type_converter M1 a = Inl (ValueError m))))"
proof (cases "select_classes M classes")
  case (Inl e)
  with assms select_classes_error [OF Inl] show ?thesis
    by (auto simp: generate_def)
next
  case (Inr p)
  obtain cs en where p: "p = (cs, en)" by (cases p)
  show ?thesis
  proof (cases "create_class_hierarchy M cs")
    case (Inl e)
    then have "e = TypeError \<or> e = AttributeError"
      by (auto simp: create_class_hierarchy_def dest: create_class_hierarchy_from_error)
    with assms Inr p Inl show ?thesis by (auto simp: generate_def)
  next
    case hier: (Inr h)
    let ?uml = "filter_uml_classes E M cs"
    let ?f0 = "(Header, header) # import_lines M ?uml"
    obtain r1 M1 f1 W1 where loop:
      "write_class_defs (recursion_limit E) h (map fst h) (M, ?f0, set ?uml) = (r1, M1, f1, W1)"
      by (cases "write_class_defs (recursion_limit E) h (map fst h) (M, ?f0, set ?uml)") auto
    show ?thesis
    proof (cases r1)
      case (Some e)
      with assms Inr p hier loop have "r = r1" "outfile st = Some f1"
        by (auto simp: generate_def Let_def)
      with Inr p hier loop Some show ?thesis
        by (auto simp: appends_refl)
    next
      case None
      let ?f1 = "f1 @ [(Blank, nl @ nl)]"
      obtain r2 f2 p2 where props:
        "write_all_properties E M1 en (map fst h) (?f1, []) = (r2, f2, p2)"
        by (cases "write_all_properties E M1 en (map fst h) (?f1, [])") auto
      from write_all_properties_appends [OF props]
      have "appends is_prop ?f1 f2" by simp
      then have a2: "appends is_prop f1 f2" by (rule appends_snoc) simp
      show ?thesis
      proof (cases r2)
        case (Some e)
        with assms Inr p hier loop None props have res: "r = r2" "outfile st = Some f2"
          by (auto simp: generate_def Let_def)
        have "\<forall>m. r = Some (ValueError m) \<longrightarrow>
               (\<exists>c a. c \<in> set (map fst h) \<and> a \<in> set (c_attribute (M1 c)) \<and>
                      type_converter M1 a = Inl (ValueError m))"
          using write_all_properties_error [of E M1 en "map fst h" "(?f1, [])" _ "(f2, p2)"]
            props res by auto
        with Inr p hier loop None res Some a2 show ?thesis by auto
      next
        case r2: None
        obtain r3 f3 where subs: "write_all_subsets M1 (map fst h) f2 = (r3, f3)"
          by (cases "write_all_subsets M1 (map fst h) f2") auto
        from write_all_subsets_appends [OF subs]
        have a3: "appends is_prop f2 f3" and r3: "r3 = None \<or> r3 = Some AttributeError"
          by simp_all
        from assms Inr p hier loop None props r2 subs
        have res: "r = r3" "outfile st = Some f3"
          by (auto simp: generate_def Let_def)
        from r3 res have "\<forall>m. r \<noteq> Some (ValueError m)" by auto
        with Inr p hier loop None res appends_trans [OF a2 a3] show ?thesis by auto
      qed
    qed
  qed
qed

lemma starts_with_append: "starts_with p (p @ s)"
  by (induction p) auto

lemma generate_files:
  assumes "outfile (snd (generate E M classes)) = Some f"
  shows "\<exists>cs en h r1 M1 f1 W1 new.
            select_classes M classes = Inr (cs, en) \<and>
            create_class_hierarchy M cs = Inr h \<and>
            write_class_defs (recursion_limit E) h (map fst h)
              (M, (Header, header) # import_lines M (filter_uml_classes E M cs),
               set (filter_uml_classes E M cs)) = (r1, M1, f1, W1) \<and>
            step h ((Header, header) # import_lines M (filter_uml_classes E M cs),
                    set (filter_uml_classes E M cs)) r1 (f1, W1) \<and>
            f = f1 @ new \<and> class_defs new = [] \<and> (\<forall>c. attribute_names c new = []) \<and>
            (fst (generate E M classes) = None \<longrightarrow> r1 = None \<and> set (map fst h) \<subseteq> W1)"
proof -
  obtain r st where g: "generate E M classes = (r, st)" by (cases "generate E M classes")
  with assms have "outfile st = Some f" by simp
  with generate_run [OF g] obtain cs en h r1 M1 f1 W1 where
    run: "select_classes M classes = Inr (cs, en)" "create_class_hierarchy M cs = Inr h"
      "write_class_defs (recursion_limit E) h (map fst h)
              (M, (Header, header) # import_lines M (filter_uml_classes E M cs),
               set (filter_uml_classes E M cs)) = (r1, M1, f1, W1)"
      "appends is_prop f1 f" "r = None \<longrightarrow> r1 = None"
    by auto
  from appends_no_defs [OF run(4)] obtain new where
    new: "f = f1 @ new" "class_defs new = []" "\<forall>c. attribute_names c new = []"
    by auto
  from write_class_defs_step [OF run(3)] run(5) g new run(1,2,3) show ?thesis
    by auto
qed

text \<open>
  The recursion returns when the hierarchy has no cycle and the interpreter allows
  enough nested calls: \<open>rank\<close> bounds the depth of a class in the hierarchy, every
  parent is written or a key, the parents have names and the attributes have types.
\<close>

lemma write_class_def_returns:
  "\<forall>c \<in> fst ` set h. \<forall>g \<in> set (parents h c).
      rank g < rank c \<and> (g \<in> W0 \<or> g \<in> fst ` set h) \<Longrightarrow>
   \<forall>c \<in> fst ` set h. \<forall>g \<in> set (parents h c). c_name (M g) \<noteq> None \<Longrightarrow>
   \<forall>c \<in> fst ` set h. \<forall>a \<in> set (c_attribute (M c)).
      p_type a \<noteq> None \<or> typeValue a \<noteq> None \<Longrightarrow>
   cls \<in> snd s \<union> fst ` set h \<Longrightarrow> rank cls < n \<Longrightarrow> W0 \<subseteq> snd s \<Longrightarrow>
     fst (write_class_def n M h cls s) = None"
  "\<forall>c \<in> fst ` set h. \<forall>g \<in> set (parents h c).
      rank g < rank c \<and> (g \<in> W0 \<or> g \<in> fst ` set h) \<Longrightarrow>
   \<forall>c \<in> fst ` set h. \<forall>g \<in> set (parents h c). c_name (M g) \<noteq> None \<Longrightarrow>
   \<forall>c \<in> fst ` set h. \<forall>a \<in> set (c_attribute (M c)).
      p_type a \<noteq> None \<or> typeValue a \<noteq> None \<Longrightarrow>
   set gs \<subseteq> snd s \<union> fst ` set h \<Longrightarrow> \<forall>g \<in> set gs. rank g < n \<Longrightarrow> W0 \<subseteq> snd s \<Longrightarrow>
     fst (write_generalizations n M h gs s) = None"
proof (induction n M h cls s and n M h gs s
       rule: write_class_def_write_generalizations.induct)
  case (1 M h cls s)
  then show ?case by simp
next
  case (2 n M h cls f W)
  note acyclic = "2.prems"(1) and names = "2.prems"(2) and typed = "2.prems"(3)
    and dom = "2.prems"(4) and rk = "2.prems"(5) and w0 = "2.prems"(6)
  show ?case
  proof (cases "cls \<in> W")
    case True
    then show ?thesis by simp
  next
    case False
    with dom have key: "cls \<in> fst ` set h" by simp
    then obtain gens where gens: "map_of h cls = Some gens"
      by (metis map_of_eq_None_iff not_Some_eq)
    then have par: "parents h cls = gens" by (simp add: parents_def)
    obtain r1 f1 W1 where g: "write_generalizations n M h gens (f, W) = (r1, f1, W1)"
      by (cases "write_generalizations n M h gens (f, W)") auto
    have a: "\<forall>g \<in> set gens. rank g < rank cls \<and> (g \<in> W0 \<or> g \<in> fst ` set h)"
      using acyclic key par by blast
    have "set gens \<subseteq> snd (f, W) \<union> fst ` set h"
      using a w0 by auto
    moreover have "\<forall>g \<in> set gens. rank g < n"
      using a rk by fastforce
    ultimately have "fst (write_generalizations n M h gens (f, W)) = None"
      using "2.IH" [OF False gens acyclic names typed] w0 by blast
    with g have r1: "r1 = None" by simp
    from names key par have "\<not> (\<exists>g \<in> set gens. c_name (M g) = None)" by blast
    then obtain line where line: "class_text M cls gens = Inr line"
      by (simp add: class_text_def)
    obtain r2 f2 where wa: "write_attributes M cls (f1 @ [(ClassDef cls, line)]) = (r2, f2)"
      by (cases "write_attributes M cls (f1 @ [(ClassDef cls, line)])") auto
    have "r2 = None"
    proof (rule ccontr)
      assume "r2 \<noteq> None"
      then obtain e where "r2 = Some e" by auto
      with write_attributes_new [OF wa] obtain a where
        "a \<in> set (c_attribute (M cls))" "type_converter M a = Inl e" by blast
      with type_converter_Inl [of M a e] typed key show False by blast
    qed
    with False gens g r1 line wa show ?thesis by simp
  qed
next
  case (3 n M h s)
  then show ?case by simp
next
  case (4 n M h g gs s)
  note acyclic = "4.prems"(1) and names = "4.prems"(2) and typed = "4.prems"(3)
    and dom = "4.prems"(4) and rk = "4.prems"(5) and w0 = "4.prems"(6)
  obtain r1 s1 where c1: "write_class_def n M h g s = (r1, s1)"
    by (cases "write_class_def n M h g s") auto
  have "fst (write_class_def n M h g s) = None"
    using "4.IH"(1) [OF acyclic names typed _ _ w0] dom rk by simp
  with c1 have r1: "r1 = None" by simp
  from write_class_def_written(1) [OF c1] have sub: "snd s \<subseteq> snd s1" by simp
  have "fst (write_generalizations n M h gs s1) = None"
  proof (rule "4.IH"(2) [OF c1 [symmetric] r1 acyclic names typed])
    show "set gs \<subseteq> snd s1 \<union> fst ` set h" using dom sub by auto
    show "\<forall>g \<in> set gs. rank g < n" using rk by simp
    show "W0 \<subseteq> snd s1" using w0 sub by auto
  qed
  with c1 r1 show ?case by simp
qed

section \<open>Properties of the fork node item\<close>




text \<open>
  C10. \<open>on_subject_notify\<close> raises \<open>AttributeError\<close> exactly on an item whose subject
  is set and has no join specification; the run ends there, with the subject and the
  text of the join specification as they were and no update requested. No run takes the
  branch that calls \<open>set_join_spec\<close> with the default: the subjects that lack a join
  specification are the ones the condition fails on.
\<close>

theorem on_subject_notify_unguarded:
  "(raised (on_subject_notify self) = Some AttributeError \<longleftrightarrow>
      (\<exists>subj. subject self = Some subj \<and> joinSpec subj = None)) \<and>
   (raised (on_subject_notify self) \<noteq> None \<longrightarrow>
      subject (item (on_subject_notify self)) = subject self \<and>
      join_spec_text (item (on_subject_notify self)) = join_spec_text self \<and>
      calls (item (on_subject_notify self)) = calls self @ [DiagramItem_on_subject_notify]) \<and>
   \<not> went_to_set_join_spec (on_subject_notify self)"
  by (auto simp: on_subject_notify_def join_spec_or_value_def Let_def
           split: option.splits sum.splits)

theorem on_subject_notify_unguarded_witness:
  "raised (on_subject_notify ex_join_node) = Some AttributeError \<and>
   subject (item (on_subject_notify ex_join_node)) =
     Some \<lparr>is_join_node = True, joinSpec = None\<rparr> \<and>
   join_spec_text (item (on_subject_notify ex_join_node)) = None \<and>
   calls (item (on_subject_notify ex_join_node)) = [DiagramItem_on_subject_notify] \<and>
   \<not> went_to_set_join_spec (on_subject_notify ex_join_node)"
  using on_subject_notify_unguarded [of ex_join_node]
  by (simp add: ex_join_node_def init_def)

section \<open>Properties of the generator\<close>

text \<open>The run of \<open>generate\<close> on the example profile, evaluated.\<close>

lemma ex_select: "select_classes ex_model ex_classes = Inr ([1, 2, 3, 7], [(''FlowDirectionKind'', 4)])"
  by code_simp

lemma ex_create: "create_class_hierarchy ex_model [1, 2, 3, 7] = Inr ex_hierarchy"
  by code_simp

lemma ex_generate_ok: "fst (generate ex_env ex_model ex_classes) = None"
  by code_simp

lemma ex_generate_defs:
  "map_option class_defs (outfile (snd (generate ex_env ex_model ex_classes))) = Some [3, 1, 7]"
  by code_simp

lemma ex_untyped_generate:
  "fst (generate ex_env ex_untyped ex_classes) =
     Some (ValueError ''ERROR! type is not specified for property size'')"
  by code_simp

lemma header_text:
  "header =
     ''# This file is generated by profile_coder.py. DO NOT EDIT!'' @ [CHR 0x0A, CHR 0x0A] @
     ''from __future__ import annotations'' @ [CHR 0x0A, CHR 0x0A] @
     ''from gaphor.core.modeling.properties import ('' @ [CHR 0x0A] @
     ''    association,'' @ [CHR 0x0A] @
     ''    attribute,'' @ [CHR 0x0A] @
     ''    enumeration,'' @ [CHR 0x0A] @
     ''    relation_many,'' @ [CHR 0x0A] @
     ''    relation_one,'' @ [CHR 0x0A] @
     '')'' @ [CHR 0x0A]"
  by (simp add: header_def nl_def)

lemma file_text_append [simp]: "file_text (xs @ ys) = file_text xs @ file_text ys"
  by (simp add: file_text_def)

lemma file_text_Cons [simp]: "file_text (ch # f) = snd ch @ file_text f"
  by (simp add: file_text_def)

lemma ex_generate_header:
  "map_option (take 2) (outfile (snd (generate ex_env ex_model ex_classes))) =
     Some [(Header,
            ''# This file is generated by profile_coder.py. DO NOT EDIT!'' @ [CHR 0x0A, CHR 0x0A] @
            ''from __future__ import annotations'' @ [CHR 0x0A, CHR 0x0A] @
            ''from gaphor.core.modeling.properties import ('' @ [CHR 0x0A] @
            ''    association,'' @ [CHR 0x0A] @
            ''    attribute,'' @ [CHR 0x0A] @
            ''    enumeration,'' @ [CHR 0x0A] @
            ''    relation_many,'' @ [CHR 0x0A] @
            ''    relation_one,'' @ [CHR 0x0A] @
            '')'' @ [CHR 0x0A]),
           (Import 2, ''from gaphor.UML import Class'' @ [CHR 0x0A])]"
  "map_option (\<lambda>f. take 230 (file_text f)) (outfile (snd (generate ex_env ex_model ex_classes))) =
     Some (''# This file is generated by profile_coder.py. DO NOT EDIT!'' @ [CHR 0x0A, CHR 0x0A] @
           ''from __future__ import annotations'' @ [CHR 0x0A, CHR 0x0A] @
           ''from gaphor.core.modeling.properties import ('' @ [CHR 0x0A] @
           ''    association,'' @ [CHR 0x0A] @
           ''    attribute,'' @ [CHR 0x0A] @
           ''    enumeration,'' @ [CHR 0x0A] @
           ''    relation_many,'' @ [CHR 0x0A] @
           ''    relation_one,'' @ [CHR 0x0A] @
           '')'' @ [CHR 0x0A])"
  by code_simp+

text \<open>
  C7. The header is the text of the source, character for character: the notice that
  the file is generated, and the import block of \<open>association\<close>, \<open>attribute\<close>,
  \<open>enumeration\<close>, \<open>relation_many\<close> and \<open>relation_one\<close>. Every run of \<open>generate\<close>
  that returns has written the output file, and the text of every output file a run has
  opened is this header, then the import lines of the UML classes, then the rest; all
  class definitions are in the rest.
\<close>

theorem generate_header_first:
  "header =
     ''# This file is generated by profile_coder.py. DO NOT EDIT!'' @ [CHR 0x0A, CHR 0x0A] @
     ''from __future__ import annotations'' @ [CHR 0x0A, CHR 0x0A] @
     ''from gaphor.core.modeling.properties import ('' @ [CHR 0x0A] @
     ''    association,'' @ [CHR 0x0A] @
     ''    attribute,'' @ [CHR 0x0A] @
     ''    enumeration,'' @ [CHR 0x0A] @
     ''    relation_many,'' @ [CHR 0x0A] @
     ''    relation_one,'' @ [CHR 0x0A] @
     '')'' @ [CHR 0x0A] \<and>
   (fst (generate E M classes) = None \<longrightarrow> outfile (snd (generate E M classes)) \<noteq> None) \<and>
   (\<forall>f. outfile (snd (generate E M classes)) = Some f \<longrightarrow>
      (\<exists>cs en rest. select_classes M classes = Inr (cs, en) \<and>
         f = (Header, header) # import_lines M (filter_uml_classes E M cs) @ rest \<and>
         class_defs f = class_defs rest \<and>
         file_text f =
           (''# This file is generated by profile_coder.py. DO NOT EDIT!'' @ [CHR 0x0A, CHR 0x0A] @
            ''from __future__ import annotations'' @ [CHR 0x0A, CHR 0x0A] @
            ''from gaphor.core.modeling.properties import ('' @ [CHR 0x0A] @
            ''    association,'' @ [CHR 0x0A] @
            ''    attribute,'' @ [CHR 0x0A] @
            ''    enumeration,'' @ [CHR 0x0A] @
            ''    relation_many,'' @ [CHR 0x0A] @
            ''    relation_one,'' @ [CHR 0x0A] @
            '')'' @ [CHR 0x0A]) @
           file_text (import_lines M (filter_uml_classes E M cs)) @ file_text rest) \<and>
      starts_with header (file_text f))"
  (is "header = ?text \<and> ?opened \<and> ?files")
proof (intro conjI)
  show lit: "header = ?text" by (rule header_text)
  show ?opened
  proof
    assume ok: "fst (generate E M classes) = None"
    obtain r st where g: "generate E M classes = (r, st)" by (cases "generate E M classes")
    from generate_run [OF g] ok g show "outfile (snd (generate E M classes)) \<noteq> None"
      by auto
  qed
  show ?files
  proof (intro allI impI conjI)
    fix f assume f: "outfile (snd (generate E M classes)) = Some f"
    from generate_files [OF f] obtain cs en h r1 f1 W1 new where
      run: "select_classes M classes = Inr (cs, en)"
        "step h ((Header, header) # import_lines M (filter_uml_classes E M cs),
                 set (filter_uml_classes E M cs)) r1 (f1, W1)"
        "f = f1 @ new"
      by blast
    from run(2) obtain new1 where
      "f1 = ((Header, header) # import_lines M (filter_uml_classes E M cs)) @ new1"
      by (auto simp: step_def)
    with run(3) have eq:
      "f = (Header, header) # import_lines M (filter_uml_classes E M cs) @ (new1 @ new)"
      by simp
    then have defs: "class_defs f = class_defs (new1 @ new)" by simp
    from eq have "file_text f =
        header @ file_text (import_lines M (filter_uml_classes E M cs)) @ file_text (new1 @ new)"
      by simp
    then have ft: "file_text f =
        ?text @ file_text (import_lines M (filter_uml_classes E M cs)) @ file_text (new1 @ new)"
      by (simp only: lit [symmetric])
    from run(1) eq defs ft
    show "\<exists>cs en rest. select_classes M classes = Inr (cs, en) \<and>
         f = (Header, header) # import_lines M (filter_uml_classes E M cs) @ rest \<and>
         class_defs f = class_defs rest \<and>
         file_text f =
           ?text @ file_text (import_lines M (filter_uml_classes E M cs)) @ file_text rest"
      by (intro exI conjI)
    from eq show "starts_with header (file_text f)"
      by (simp add: starts_with_append)
  qed
qed

theorem generate_header_first_witness:
  "outfile (snd (generate ex_env ex_model ex_classes)) \<noteq> None \<and>
   starts_with header (file_text (the (outfile (snd (generate ex_env ex_model ex_classes))))) \<and>
   map_option (take 2) (outfile (snd (generate ex_env ex_model ex_classes))) =
     Some [(Header,
            ''# This file is generated by profile_coder.py. DO NOT EDIT!'' @ [CHR 0x0A, CHR 0x0A] @
            ''from __future__ import annotations'' @ [CHR 0x0A, CHR 0x0A] @
            ''from gaphor.core.modeling.properties import ('' @ [CHR 0x0A] @
            ''    association,'' @ [CHR 0x0A] @
            ''    attribute,'' @ [CHR 0x0A] @
            ''    enumeration,'' @ [CHR 0x0A] @
            ''    relation_many,'' @ [CHR 0x0A] @
            ''    relation_one,'' @ [CHR 0x0A] @
            '')'' @ [CHR 0x0A]),
           (Import 2, ''from gaphor.UML import Class'' @ [CHR 0x0A])] \<and>
   map_option (\<lambda>f. take 230 (file_text f)) (outfile (snd (generate ex_env ex_model ex_classes))) =
     Some (''# This file is generated by profile_coder.py. DO NOT EDIT!'' @ [CHR 0x0A, CHR 0x0A] @
           ''from __future__ import annotations'' @ [CHR 0x0A, CHR 0x0A] @
           ''from gaphor.core.modeling.properties import ('' @ [CHR 0x0A] @
           ''    association,'' @ [CHR 0x0A] @
           ''    attribute,'' @ [CHR 0x0A] @
           ''    enumeration,'' @ [CHR 0x0A] @
           ''    relation_many,'' @ [CHR 0x0A] @
           ''    relation_one,'' @ [CHR 0x0A] @
           '')'' @ [CHR 0x0A])"
proof -
  note inst = generate_header_first [of ex_env ex_model ex_classes]
  from inst [THEN conjunct2, THEN conjunct1, THEN mp, OF ex_generate_ok]
  have opened: "outfile (snd (generate ex_env ex_model ex_classes)) \<noteq> None" .
  then obtain f where f: "outfile (snd (generate ex_env ex_model ex_classes)) = Some f"
    by blast
  from inst [THEN conjunct2, THEN conjunct2, rule_format, OF f]
  have "starts_with header (file_text f)" by (rule conjunct2)
  with f have starts:
    "starts_with header (file_text (the (outfile (snd (generate ex_env ex_model ex_classes)))))"
    by simp
  from opened starts ex_generate_header show ?thesis by (intro conjI)
qed

text \<open>
  C2. \<open>type_converter\<close> raises exactly on a property that has neither a type nor a type
  value, and what it raises is the \<open>ValueError\<close>. A run of \<open>generate\<close> that ends in a
  \<open>ValueError\<close> has it from \<open>type_converter\<close> on such an attribute of one of the loaded
  classes: no other step of the run raises it. Every other failure of a run is one the
  interpreter raises on a field that is not set or a key that is missing.
\<close>

theorem type_converter_only_failure:
  "((\<exists>e. type_converter M p = Inl e) \<longleftrightarrow> p_type p = None \<and> typeValue p = None) \<and>
   (\<forall>e. type_converter M p = Inl e \<longrightarrow>
      e = ValueError (''ERROR! type is not specified for property '' @ str (p_name p))) \<and>
   (\<forall>m. fst (generate E M classes) = Some (ValueError m) \<longrightarrow>
      (\<exists>c \<in> set classes. \<exists>a \<in> set (c_attribute (M c)).
         p_type a = None \<and> typeValue a = None \<and> type_converter M a = Inl (ValueError m)))"
proof (intro conjI allI impI)
  show "(\<exists>e. type_converter M p = Inl e) \<longleftrightarrow> p_type p = None \<and> typeValue p = None"
    by (auto simp: type_converter_def split: option.splits)
next
  fix e assume "type_converter M p = Inl e"
  then show "e = ValueError (''ERROR! type is not specified for property '' @ str (p_name p))"
    by (rule type_converter_Inl [THEN conjunct2, THEN conjunct2])
next
  fix m assume v: "fst (generate E M classes) = Some (ValueError m)"
  obtain r st where g: "generate E M classes = (r, st)" by (cases "generate E M classes")
  with v have r: "r = Some (ValueError m)" by simp
  have "outfile st \<noteq> None"
  proof
    assume "outfile st = None"
    with generate_run [OF g] r show False by auto
  qed
  then obtain f where f: "outfile st = Some f" by blast
  from generate_run [OF g] f obtain cs en h r1 M1 f1 W1 where
    run: "select_classes M classes = Inr (cs, en)" "create_class_hierarchy M cs = Inr h"
      "write_class_defs (recursion_limit E) h (map fst h)
              (M, (Header, header) # import_lines M (filter_uml_classes E M cs),
               set (filter_uml_classes E M cs)) = (r1, M1, f1, W1)"
      "\<forall>m. r = Some (ValueError m) \<longrightarrow> r1 = Some (ValueError m) \<or>
               (\<exists>c a. c \<in> set (map fst h) \<and> a \<in> set (c_attribute (M1 c)) \<and>
                      type_converter M1 a = Inl (ValueError m))"
    by auto
  show "\<exists>c \<in> set classes. \<exists>a \<in> set (c_attribute (M c)).
         p_type a = None \<and> typeValue a = None \<and> type_converter M a = Inl (ValueError m)"
  proof -
    note loop = write_class_defs_step [OF run(3)]
    from run(4) r have "r1 = Some (ValueError m) \<or>
               (\<exists>c a. c \<in> set (map fst h) \<and> a \<in> set (c_attribute (M1 c)) \<and>
                      type_converter M1 a = Inl (ValueError m))" by blast
    then have "\<exists>c a. c \<in> fst ` set h \<and> a \<in> set (c_attribute (M c)) \<and>
        type_converter M a = Inl (ValueError m)"
    proof
      assume "r1 = Some (ValueError m)"
      with loop show ?thesis by blast
    next
      assume "\<exists>c a. c \<in> set (map fst h) \<and> a \<in> set (c_attribute (M1 c)) \<and>
                      type_converter M1 a = Inl (ValueError m)"
      then obtain c a where "c \<in> set (map fst h)" "a \<in> set (c_attribute (M1 c))"
        "type_converter M1 a = Inl (ValueError m)" by blast
      moreover from loop have "set (c_attribute (M1 c)) = set (c_attribute (M c))"
        "type_converter M1 a = type_converter M a" by blast+
      ultimately have "c \<in> fst ` set h" "a \<in> set (c_attribute (M c))"
        "type_converter M a = Inl (ValueError m)" by simp_all
      then show ?thesis by blast
    qed
    then obtain c a where ca: "c \<in> fst ` set h" "a \<in> set (c_attribute (M c))"
      "type_converter M a = Inl (ValueError m)" by blast
    from ca(1) create_class_hierarchy_keys(1) [OF run(2)] select_classes_value(1) [OF run(1)]
    have "c \<in> set classes" by auto
    with ca type_converter_Inl [OF ca(3)] show ?thesis by blast
  qed
qed

theorem type_converter_only_failure_witness:
  "type_converter ex_untyped (attr ''size'') =
     Inl (ValueError ''ERROR! type is not specified for property size'') \<and>
   fst (generate ex_env ex_untyped ex_classes) =
     Some (ValueError ''ERROR! type is not specified for property size'') \<and>
   (\<exists>c \<in> set ex_classes. \<exists>a \<in> set (c_attribute (ex_untyped c)).
      p_type a = None \<and> typeValue a = None \<and>
      type_converter ex_untyped a =
        Inl (ValueError ''ERROR! type is not specified for property size''))"
proof -
  have t: "type_converter ex_untyped (attr ''size'') =
     Inl (ValueError ''ERROR! type is not specified for property size'')"
    by code_simp
  from type_converter_only_failure [of ex_untyped "attr ''size''" ex_env ex_classes]
    ex_untyped_generate t
  show ?thesis by blast
qed

text \<open>
  C4. On classes whose fields are set as far as they are read,
  \<open>create_class_hierarchy\<close> returns a dictionary. Whenever it returns one, its keys are
  exactly the classes of the list, each once, and the value of a class is the list of
  its general classes followed by its meta classes, sorted by name.
\<close>

theorem create_class_hierarchy_dictionary:
  "((\<forall>cls \<in> set classes. parents_set M cls) \<longrightarrow>
      (\<exists>h. create_class_hierarchy M classes = Inr h)) \<and>
   (\<forall>h. create_class_hierarchy M classes = Inr h \<longrightarrow>
      set (map fst h) = set classes \<and> distinct (map fst h) \<and>
      (\<forall>cls \<in> set classes.
         map_of h cls =
           Some (sort_key (\<lambda>e. or_empty (c_name (M e))) (general (M cls) @ meta_classes M cls)) \<and>
         sorted (map (\<lambda>e. or_empty (c_name (M e))) (parents h cls))))"
proof (intro conjI allI impI ballI)
  assume "\<forall>cls \<in> set classes. parents_set M cls"
  then have "\<forall>c \<in> set classes. \<exists>ps. hierarchy_entry M c = Inr ps"
    by (simp add: hierarchy_entry_total)
  from create_class_hierarchy_from_total [OF this]
  show "\<exists>h. create_class_hierarchy M classes = Inr h"
    by (simp add: create_class_hierarchy_def)
next
  fix h assume h: "create_class_hierarchy M classes = Inr h"
  from create_class_hierarchy_keys [OF h]
  show "set (map fst h) = set classes" "distinct (map fst h)" by simp_all
  fix cls assume "cls \<in> set classes"
  with create_class_hierarchy_keys(4) [OF h]
  show v: "map_of h cls =
      Some (sort_key (\<lambda>e. or_empty (c_name (M e))) (general (M cls) @ meta_classes M cls))"
    by simp
  show "sorted (map (\<lambda>e. or_empty (c_name (M e))) (parents h cls))"
    by (simp add: parents_def v)
qed

theorem create_class_hierarchy_dictionary_witness:
  "create_class_hierarchy ex_model [1, 2, 3, 7] = Inr ex_hierarchy \<and>
   map_of ex_hierarchy 1 =
     Some (sort_key (\<lambda>e. or_empty (c_name (ex_model e)))
             (general (ex_model 1) @ meta_classes ex_model 1)) \<and>
   general (ex_model 1) = [3] \<and> meta_classes ex_model 1 = [2] \<and>
   map_of ex_hierarchy 1 = Some [2, 3] \<and>
   (\<exists>h. create_class_hierarchy ex_model [1, 2, 3, 7] = Inr h)"
proof -
  have ok: "\<forall>cls \<in> set [1, 2, 3, 7]. parents_set ex_model cls" by code_simp
  have g: "general (ex_model 1) = [3]" "meta_classes ex_model 1 = [2]"
    "map_of ex_hierarchy 1 = Some [2, 3]"
    by code_simp+
  from create_class_hierarchy_dictionary [of "[1, 2, 3, 7]" ex_model] ok ex_create g
  show ?thesis by simp
qed

text \<open>
  C6. On classes that have a name and a qualified name, the filter step of \<open>generate\<close>
  returns. Whenever it returns, the classes it passes on are the loaded classes that are
  kept, sorted by name: those whose name has no \<open>Kind\<close> in it, whose qualified name
  does not start with the Gaphor profile and whose name does not begin with a tilde.
  They are exactly the keys of the hierarchy. The names in the dictionary of
  enumerations are those of the loaded classes with \<open>Kind\<close> in the name, and each is
  mapped to a loaded class of that name.
\<close>

theorem select_classes_filter:
  "((\<forall>c \<in> set classes. truthy (c_name (M c)) \<and> qualifiedName (M c) \<noteq> []) \<longrightarrow>
      (\<exists>cs en. select_classes M classes = Inr (cs, en))) \<and>
   (\<forall>cs en. select_classes M classes = Inr (cs, en) \<longrightarrow>
      cs = sort_key (\<lambda>c. or_empty (c_name (M c))) (filter (kept M) classes) \<and>
      set cs = {c \<in> set classes. kept M c} \<and>
      fst ` set en =
        {n. \<exists>c \<in> set classes. c_name (M c) = Some n \<and> contains ''Kind'' n} \<and>
      (\<forall>n c. map_of en n = Some c \<longrightarrow>
         c \<in> set classes \<and> c_name (M c) = Some n \<and> contains ''Kind'' n) \<and>
      (\<forall>h. create_class_hierarchy M cs = Inr h \<longrightarrow>
         set (map fst h) = {c \<in> set classes. kept M c}))"
proof (intro conjI allI impI)
  assume "\<forall>c \<in> set classes. truthy (c_name (M c)) \<and> qualifiedName (M c) \<noteq> []"
  then show "\<exists>cs en. select_classes M classes = Inr (cs, en)"
    by (rule select_classes_total)
next
  fix cs en assume s: "select_classes M classes = Inr (cs, en)"
  note v = select_classes_value [OF s]
  let ?k = "\<lambda>cls. or_empty (c_name (M cls))"
  let ?kinds = "filter (\<lambda>cls. contains ''Kind'' (?k cls)) classes"
  from v(1) show cs: "cs = sort_key ?k (filter (kept M) classes)" .
  then show set_cs: "set cs = {c \<in> set classes. kept M c}" by auto
  from v(3) have name: "c_name (M c) = Some (?k c)" if "c \<in> set classes" for c
    using that by (auto simp: or_empty_def)
  note en = fold_update_enumerations [of ?k ?kinds "[]", folded v(2)]
  from en have "fst ` set en = ?k ` set ?kinds" by simp
  also have "\<dots> = {n. \<exists>c \<in> set classes. c_name (M c) = Some n \<and> contains ''Kind'' n}"
    using name by (auto simp: or_empty_def image_iff) (metis option.sel)+
  finally show "fst ` set en =
      {n. \<exists>c \<in> set classes. c_name (M c) = Some n \<and> contains ''Kind'' n}" .
  {
    fix n c assume "map_of en n = Some c"
    then have "(n, c) \<in> set en" by (rule map_of_SomeD)
    with en have "c \<in> set ?kinds" "n = ?k c" by auto
    with name show "c \<in> set classes" "c_name (M c) = Some n" "contains ''Kind'' n"
      by auto
  }
  fix h assume "create_class_hierarchy M cs = Inr h"
  from create_class_hierarchy_keys(3) [OF this] set_cs
  show "set (map fst h) = {c \<in> set classes. kept M c}" by simp
qed

theorem select_classes_filter_witness:
  "(\<exists>cs en. select_classes ex_model ex_classes = Inr (cs, en)) \<and>
   select_classes ex_model ex_classes = Inr ([1, 2, 3, 7], [(''FlowDirectionKind'', 4)]) \<and>
   filter (kept ex_model) ex_classes = [1, 2, 3, 7] \<and>
   {c \<in> set ex_classes. kept ex_model c} = {1, 2, 3, 7} \<and>
   set (map fst ex_hierarchy) = {c \<in> set ex_classes. kept ex_model c}"
proof -
  have named: "\<forall>c \<in> set ex_classes. truthy (c_name (ex_model c)) \<and> qualifiedName (ex_model c) \<noteq> []"
    by code_simp
  have k: "filter (kept ex_model) ex_classes = [1, 2, 3, 7]" by code_simp
  then have "set (filter (kept ex_model) ex_classes) = {1, 2, 3, 7}" by simp
  then have s: "{c \<in> set ex_classes. kept ex_model c} = {1, 2, 3, 7}" by simp
  note inst = select_classes_filter [of ex_classes ex_model]
  from inst [THEN conjunct1, THEN mp, OF named]
  have ex: "\<exists>cs en. select_classes ex_model ex_classes = Inr (cs, en)" .
  note facts = inst [THEN conjunct2, rule_format, OF ex_select]
  from facts [THEN conjunct2, THEN conjunct2, THEN conjunct2, THEN conjunct2, rule_format,
              OF ex_create]
  have hk: "set (map fst ex_hierarchy) = {c \<in> set ex_classes. kept ex_model c}" .
  from ex ex_select k s hk show ?thesis by (intro conjI)
qed

lemma count_list_distinct: "distinct xs \<Longrightarrow> x \<in> set xs \<Longrightarrow> count_list xs x = 1"
  by (induction xs) auto

lemma ex_generate_imports:
  "filter_uml_classes ex_env ex_model [1, 2, 3, 7] = [2]"
  by code_simp

text \<open>
  C1, as the code has it. In every run of \<open>write_class_def\<close> (and of the loop over the
  generalizations), also one that fails, each class definition the run writes comes
  after the definitions of all classes of \<open>hierarchy[cls]\<close> that were not in
  \<open>cls_written\<close> when the run started. In the file of \<open>generate\<close> the classes that are
  there from the start are the UML classes: they are imported after the header and are
  never defined, and every class definition comes after the definitions of all its
  other generalizations and meta classes.
\<close>

theorem write_class_def_after_generalizations:
  "(\<forall>r f' W'. write_class_def n M h cls (f, W) = (r, f', W') \<longrightarrow>
      (\<exists>new. f' = f @ new \<and> defs_ordered h W (class_defs new) \<and>
             set (class_defs new) \<inter> W = {} \<and> W' \<subseteq> W \<union> set (class_defs new))) \<and>
   (\<forall>out. outfile (snd (generate E M classes)) = Some out \<longrightarrow>
      (\<exists>cs en hierarchy rest.
         select_classes M classes = Inr (cs, en) \<and>
         create_class_hierarchy M cs = Inr hierarchy \<and>
         out = (Header, header) # import_lines M (filter_uml_classes E M cs) @ rest \<and>
         class_defs out = class_defs rest \<and>
         set (class_defs out) \<inter> set (filter_uml_classes E M cs) = {} \<and>
         defs_ordered hierarchy (set (filter_uml_classes E M cs)) (class_defs out)))"
proof (intro conjI allI impI)
  fix r f' W' assume "write_class_def n M h cls (f, W) = (r, f', W')"
  from write_class_def_step(1) [OF this]
  show "\<exists>new. f' = f @ new \<and> defs_ordered h W (class_defs new) \<and>
             set (class_defs new) \<inter> W = {} \<and> W' \<subseteq> W \<union> set (class_defs new)"
    by (auto simp: step_def)
next
  fix out assume f: "outfile (snd (generate E M classes)) = Some out"
  from generate_files [OF f] obtain cs en hierarchy r1 f1 W1 new where
    run: "select_classes M classes = Inr (cs, en)"
      "create_class_hierarchy M cs = Inr hierarchy"
      "step hierarchy ((Header, header) # import_lines M (filter_uml_classes E M cs),
               set (filter_uml_classes E M cs)) r1 (f1, W1)"
      "out = f1 @ new" "class_defs new = []"
    by blast
  from run(3) obtain new1 where new1:
    "f1 = ((Header, header) # import_lines M (filter_uml_classes E M cs)) @ new1"
    "defs_ordered hierarchy (set (filter_uml_classes E M cs)) (class_defs new1)"
    "set (class_defs new1) \<inter> set (filter_uml_classes E M cs) = {}"
    by (auto simp: step_def)
  from run(4,5) new1(1) have eq:
    "out = (Header, header) # import_lines M (filter_uml_classes E M cs) @ (new1 @ new)"
    "class_defs out = class_defs new1" "class_defs out = class_defs (new1 @ new)"
    by simp_all
  with run(1,2) new1(2,3)
  show "\<exists>cs en hierarchy rest.
         select_classes M classes = Inr (cs, en) \<and>
         create_class_hierarchy M cs = Inr hierarchy \<and>
         out = (Header, header) # import_lines M (filter_uml_classes E M cs) @ rest \<and>
         class_defs out = class_defs rest \<and>
         set (class_defs out) \<inter> set (filter_uml_classes E M cs) = {} \<and>
         defs_ordered hierarchy (set (filter_uml_classes E M cs)) (class_defs out)"
    by (metis (no_types, lifting))
qed

theorem write_class_def_after_generalizations_witness:
  "fst (write_class_def 3 ex_model ex_hierarchy 1 ([], {2})) = None \<and>
   class_defs (fst (snd (write_class_def 3 ex_model ex_hierarchy 1 ([], {2})))) = [3, 1] \<and>
   defs_ordered ex_hierarchy {2}
     (class_defs (fst (snd (write_class_def 3 ex_model ex_hierarchy 1 ([], {2}))))) \<and>
   map_option class_defs (outfile (snd (generate ex_env ex_model ex_classes))) = Some [3, 1, 7] \<and>
   defs_ordered ex_hierarchy {2} [3, 1, 7]"
proof -
  have run: "fst (write_class_def 3 ex_model ex_hierarchy 1 ([], {2})) = None"
    "class_defs (fst (snd (write_class_def 3 ex_model ex_hierarchy 1 ([], {2})))) = [3, 1]"
    by code_simp+
  note inst = write_class_def_after_generalizations
         [of 3 ex_model ex_hierarchy 1 "[]" "{2}" ex_env ex_classes]
  obtain r f' W' where eq: "write_class_def 3 ex_model ex_hierarchy 1 ([], {2}) = (r, f', W')"
    using prod_cases3 by blast
  from inst [THEN conjunct1, rule_format, OF eq] obtain new where
    "f' = [] @ new" "defs_ordered ex_hierarchy {2} (class_defs new)"
    by (elim exE conjE)
  then have "defs_ordered ex_hierarchy {2} (class_defs f')" by simp
  with eq have one: "defs_ordered ex_hierarchy {2}
     (class_defs (fst (snd (write_class_def 3 ex_model ex_hierarchy 1 ([], {2})))))"
    by simp
  from ex_generate_defs obtain out where
    out: "outfile (snd (generate ex_env ex_model ex_classes)) = Some out"
      "class_defs out = [3, 1, 7]"
    by auto
  from inst [THEN conjunct2, rule_format, OF out(1)]
    ex_select ex_create ex_generate_imports out(2)
  have two: "defs_ordered ex_hierarchy {2} [3, 1, 7]" by auto
  from run one two ex_generate_defs show ?thesis by (intro conjI)
qed

text \<open>
  The claim as it is stated fails on the example profile: \<open>Class\<close> (2) is in the
  hierarchy of \<open>Block\<close> (1), the definition of \<open>Block\<close> is written, and no definition of
  \<open>Class\<close> is written before it, or at all.
\<close>

theorem write_class_def_after_generalizations_counterexample:
  "fst (generate ex_env ex_model ex_classes) = None \<and>
   select_classes ex_model ex_classes = Inr ([1, 2, 3, 7], [(''FlowDirectionKind'', 4)]) \<and>
   create_class_hierarchy ex_model [1, 2, 3, 7] = Inr ex_hierarchy \<and>
   map_of ex_hierarchy 1 = Some [2, 3] \<and>
   map_option class_defs (outfile (snd (generate ex_env ex_model ex_classes))) = Some [3, 1, 7] \<and>
   2 \<notin> set [3, 1, 7 :: nat] \<and>
   \<not> defs_ordered ex_hierarchy {} [3, 1, 7]"
proof -
  have "map_of ex_hierarchy 1 = Some [2, 3]" "\<not> defs_ordered ex_hierarchy {} [3, 1, 7]"
    by (simp_all add: ex_hierarchy_def parents_def)
  with ex_generate_ok ex_select ex_create ex_generate_defs show ?thesis by simp
qed

text \<open>
  C8. A call of \<open>write_class_def\<close> on a class that is in \<open>cls_written\<close> returns with the
  file and \<open>cls_written\<close> as they were. In the file of \<open>generate\<close> no class is defined
  twice, and after a run that returns, the classes defined are the classes of the
  hierarchy that are not imported UML classes: each of them is defined exactly once.
\<close>

theorem write_class_def_once:
  "(cls \<in> W \<longrightarrow> write_class_def (Suc n) M h cls (f, W) = (None, f, W)) \<and>
   (\<forall>out. outfile (snd (generate E M classes)) = Some out \<longrightarrow>
      distinct (class_defs out) \<and>
      (fst (generate E M classes) = None \<longrightarrow>
         (\<exists>cs en. select_classes M classes = Inr (cs, en) \<and>
            set (class_defs out) = set cs - set (filter_uml_classes E M cs) \<and>
            (\<forall>c \<in> set cs - set (filter_uml_classes E M cs).
                count_list (class_defs out) c = 1))))"
proof (intro conjI allI impI)
  assume "cls \<in> W"
  then show "write_class_def (Suc n) M h cls (f, W) = (None, f, W)" by simp
next
  fix out assume f: "outfile (snd (generate E M classes)) = Some out"
  from generate_files [OF f] obtain cs en hierarchy r1 f1 W1 new where
    run: "select_classes M classes = Inr (cs, en)"
      "create_class_hierarchy M cs = Inr hierarchy"
      "step hierarchy ((Header, header) # import_lines M (filter_uml_classes E M cs),
               set (filter_uml_classes E M cs)) r1 (f1, W1)"
      "out = f1 @ new" "class_defs new = []"
      "fst (generate E M classes) = None \<longrightarrow> r1 = None \<and> set (map fst hierarchy) \<subseteq> W1"
    by (elim exE conjE) (rule that, assumption+)
  let ?uml = "set (filter_uml_classes E M cs)"
  from run(3) obtain new1 where new1:
    "f1 = ((Header, header) # import_lines M (filter_uml_classes E M cs)) @ new1"
    "distinct (class_defs new1)" "set (class_defs new1) \<inter> ?uml = {}"
    "W1 \<subseteq> ?uml \<union> set (class_defs new1)" "?uml \<subseteq> W1"
    "set (class_defs new1) \<subseteq> fst ` set hierarchy"
    by (auto simp: step_def)
  from run(4,5) new1(1) have defs: "class_defs out = class_defs new1" by simp
  with new1(2) show d: "distinct (class_defs out)" by simp
  assume "fst (generate E M classes) = None"
  with run(6) have all: "set (map fst hierarchy) \<subseteq> W1" by simp
  have keys: "fst ` set hierarchy = set cs"
    by (rule create_class_hierarchy_keys(1) [OF run(2)])
  have eq: "set (class_defs out) = set cs - ?uml"
    using defs new1(3,4,6) all keys by auto
  have "\<forall>c \<in> set cs - ?uml. count_list (class_defs out) c = 1"
    using eq d by (simp add: count_list_distinct)
  with run(1) eq
  show "\<exists>cs en. select_classes M classes = Inr (cs, en) \<and>
            set (class_defs out) = set cs - set (filter_uml_classes E M cs) \<and>
            (\<forall>c \<in> set cs - set (filter_uml_classes E M cs).
                count_list (class_defs out) c = 1)"
    by blast
qed

theorem write_class_def_once_witness:
  "write_class_def (Suc 0) ex_model ex_hierarchy 2 ([], {2}) = (None, [], {2}) \<and>
   map_option class_defs (outfile (snd (generate ex_env ex_model ex_classes))) = Some [3, 1, 7] \<and>
   distinct [3, 1, 7 :: nat] \<and>
   set [3, 1, 7] = set [1, 2, 3, 7] - set (filter_uml_classes ex_env ex_model [1, 2, 3, 7]) \<and>
   count_list [3, 1, 7 :: nat] 3 = 1"
proof -
  from ex_generate_defs obtain out where
    out: "outfile (snd (generate ex_env ex_model ex_classes)) = Some out"
      "class_defs out = [3, 1, 7]"
    by auto
  from write_class_def_once [of 2 "{2}" 0 ex_model ex_hierarchy "[]" ex_env ex_classes]
    out ex_generate_ok ex_select ex_generate_imports ex_generate_defs
  show ?thesis by auto
qed

lemma write_class_def_written_before:
  "cls \<in> snd s \<Longrightarrow> write_class_def n M h cls s = (r, s') \<Longrightarrow> s' = s"
  by (cases n; cases s) auto

lemma write_generalizations_written_before:
  "set gs \<subseteq> snd s \<Longrightarrow> write_generalizations n M h gs s = (r, s') \<Longrightarrow> s' = s"
proof (induction gs arbitrary: r)
  case Nil
  then show ?case by simp
next
  case (Cons g gs)
  obtain r1 s1 where c1: "write_class_def n M h g s = (r1, s1)"
    by (cases "write_class_def n M h g s") auto
  with Cons.prems(1) have s1: "s1 = s" by (auto dest: write_class_def_written_before)
  show ?case
  proof (cases r1)
    case None
    with c1 s1 Cons.prems have "write_generalizations n M h gs s = (r, s')" by simp
    with Cons.IH Cons.prems(1) show ?thesis by simp
  next
    case (Some e)
    with c1 s1 Cons.prems show ?thesis by simp
  qed
qed

lemma write_class_def_direct:
  assumes "set (parents h c) \<subseteq> snd s" and "write_class_def n M h c s = (r, s')"
  shows "\<exists>new. fst s' = fst s @ new \<and> set (class_defs new) \<subseteq> {c}"
proof (cases n)
  case 0
  with assms show ?thesis by simp
next
  case (Suc m)
  obtain f W where s: "s = (f, W)" by (cases s)
  show ?thesis
  proof (cases "c \<in> W")
    case True
    with assms Suc s show ?thesis by simp
  next
    case False
    show ?thesis
    proof (cases "map_of h c")
      case None
      with assms Suc s False show ?thesis by simp
    next
      case (Some gens)
      with assms(1) s have sub: "set gens \<subseteq> snd (f, W)" by (simp add: parents_def)
      obtain r1 s1 where g: "write_generalizations m M h gens (f, W) = (r1, s1)"
        by (cases "write_generalizations m M h gens (f, W)") auto
      from write_generalizations_written_before [OF sub g] have s1: "s1 = (f, W)" .
      show ?thesis
      proof (cases r1)
        case (Some e)
        with assms Suc s False \<open>map_of h c = Some gens\<close> g s1 show ?thesis by simp
      next
        case None
        show ?thesis
        proof (cases "class_text M c gens")
          case (Inl e)
          with assms Suc s False \<open>map_of h c = Some gens\<close> g s1 None show ?thesis by simp
        next
          case (Inr line)
          obtain r2 f2 where wa: "write_attributes M c (f @ [(ClassDef c, line)]) = (r2, f2)"
            by (cases "write_attributes M c (f @ [(ClassDef c, line)])") auto
          from write_attributes_new [OF wa] obtain newA where
            newA: "f2 = (f @ [(ClassDef c, line)]) @ newA" "class_defs newA = []" by blast
          from assms Suc s False \<open>map_of h c = Some gens\<close> g s1 None Inr wa
          have "fst s' = f2" by (auto split: option.splits)
          with newA s have "fst s' = fst s @ ((ClassDef c, line) # newA)"
            "set (class_defs ((ClassDef c, line) # newA)) \<subseteq> {c}" by simp_all
          then show ?thesis by blast
        qed
      qed
    qed
  qed
qed

lemma sorted_same: "set xs \<subseteq> {c} \<Longrightarrow> sorted (map k xs)"
  by (induction xs) auto

lemma write_class_defs_in_order:
  "write_class_defs n h keys (M, s) = (r, M', s') \<Longrightarrow> defs_ordered h (snd s) keys \<Longrightarrow>
   sorted (map k keys) \<Longrightarrow>
     \<exists>new. fst s' = fst s @ new \<and> sorted (map k (class_defs new)) \<and>
           set (class_defs new) \<subseteq> set keys"
proof (induction keys arbitrary: M s)
  case Nil
  then show ?case by simp
next
  case (Cons c keys)
  let ?M1 = "sort_attributes M c"
  obtain r1 s1 where c1: "write_class_def n ?M1 h c s = (r1, s1)"
    by (cases "write_class_def n ?M1 h c s") auto
  from Cons.prems(2) have par: "set (parents h c) \<subseteq> snd s" by simp
  from write_class_def_direct [OF par c1] obtain new1 where
    new1: "fst s1 = fst s @ new1" "set (class_defs new1) \<subseteq> {c}" by blast
  show ?case
  proof (cases r1)
    case (Some e)
    with c1 Cons.prems(1) have "s' = s1" by auto
    with new1 sorted_same [OF new1(2), of k] show ?thesis by auto
  next
    case None
    with c1 Cons.prems(1) have rest: "write_class_defs n h keys (?M1, s1) = (r, M', s')"
      by simp
    from write_class_def_written(1) [OF c1] None have "insert c (snd s) \<subseteq> snd s1" by simp
    with Cons.prems(2) have "defs_ordered h (snd s1) keys"
      by (auto intro: defs_ordered_mono)
    moreover from Cons.prems(3) have "sorted (map k keys)" by simp
    ultimately obtain new2 where new2: "fst s' = fst s1 @ new2"
      "sorted (map k (class_defs new2))" "set (class_defs new2) \<subseteq> set keys"
      using Cons.IH [OF rest] by blast
    have "fst s' = fst s @ (new1 @ new2)" using new1(1) new2(1) by simp
    moreover have "sorted (map k (class_defs (new1 @ new2)))"
      using new1(2) new2(2,3) Cons.prems(3) sorted_same [OF new1(2), of k]
      by (auto simp: sorted_append)
    moreover have "set (class_defs (new1 @ new2)) \<subseteq> set (c # keys)"
      using new1(2) new2(3) by auto
    ultimately show ?thesis by blast
  qed
qed

lemma ex_generate_attributes:
  "map_option (attribute_names 1) (outfile (snd (generate ex_env ex_model ex_classes))) =
     Some [''direction'', ''isEncapsulated'']"
  by code_simp

lemma ex_small_select:
  "select_classes ex_model [2, 3, 7] = Inr ([2, 3, 7], [])"
  "create_class_hierarchy ex_model [2, 3, 7] = Inr [(2, []), (3, []), (7, [3])]"
  "filter_uml_classes ex_env ex_model [2, 3, 7] = [2]"
  "map_option class_defs (outfile (snd (generate ex_env ex_model [2, 3, 7]))) = Some [3, 7]"
  by code_simp+

text \<open>
  C3, as the code has it. \<open>generate\<close> goes through the classes in the order of their
  names, and the attribute lines of each class definition are in the order of the
  attribute names. The class definitions are in the order of the class names when the
  generalizations and meta classes of every class are imported or come before the class
  in that order; a generalization that comes later is written before the class, out of
  the order of the names.
\<close>

theorem generate_sorted_by_name:
  "\<forall>out. outfile (snd (generate E M classes)) = Some out \<longrightarrow>
     (\<exists>cs en hierarchy.
        select_classes M classes = Inr (cs, en) \<and>
        create_class_hierarchy M cs = Inr hierarchy \<and>
        sorted (map (\<lambda>c. or_empty (c_name (M c))) (map fst hierarchy)) \<and>
        (\<forall>c. sorted (attribute_names c out)) \<and>
        (defs_ordered hierarchy (set (filter_uml_classes E M cs)) (map fst hierarchy) \<longrightarrow>
           sorted (map (\<lambda>c. or_empty (c_name (M c))) (class_defs out))))"
proof (intro allI impI)
  fix out assume f: "outfile (snd (generate E M classes)) = Some out"
  let ?k = "\<lambda>c. or_empty (c_name (M c))"
  from generate_files [OF f] obtain cs en hierarchy r1 M1 f1 W1 new where
    run: "select_classes M classes = Inr (cs, en)"
      "create_class_hierarchy M cs = Inr hierarchy"
      "write_class_defs (recursion_limit E) hierarchy (map fst hierarchy)
              (M, (Header, header) # import_lines M (filter_uml_classes E M cs),
               set (filter_uml_classes E M cs)) = (r1, M1, f1, W1)"
      "step hierarchy ((Header, header) # import_lines M (filter_uml_classes E M cs),
               set (filter_uml_classes E M cs)) r1 (f1, W1)"
      "out = f1 @ new" "class_defs new = []" "\<forall>c. attribute_names c new = []"
    by (elim exE conjE) (rule that, assumption+)
  let ?uml = "filter_uml_classes E M cs"
  let ?f0 = "(Header, header) # import_lines M ?uml"
  have "sorted (map ?k cs)"
    using select_classes_value(1) [OF run(1)] by simp
  then have "sorted (map ?k (map fst ([] :: hierarchy) @ cs))" by simp
  from create_class_hierarchy_from_sorted [OF run(2) [unfolded create_class_hierarchy_def] this]
  have keys: "sorted (map ?k (map fst hierarchy))" .
  from run(4) obtain new1 where new1: "f1 = ?f0 @ new1"
    "\<forall>c. sorted (attribute_names c new1)"
    by (auto simp: step_def)
  have attrs: "\<forall>c. sorted (attribute_names c out)"
    using run(5,7) new1 by simp
  have defs: "sorted (map ?k (class_defs out))"
    if ord: "defs_ordered hierarchy (set ?uml) (map fst hierarchy)"
  proof -
    from ord have "defs_ordered hierarchy (snd (?f0, set ?uml)) (map fst hierarchy)" by simp
    from write_class_defs_in_order [OF run(3) this keys] obtain new2 where
      "fst (f1, W1) = fst (?f0, set ?uml) @ new2" "sorted (map ?k (class_defs new2))"
      by blast
    with run(5,6) show ?thesis by simp
  qed
  from run(1,2) keys attrs defs
  show "\<exists>cs en hierarchy.
        select_classes M classes = Inr (cs, en) \<and>
        create_class_hierarchy M cs = Inr hierarchy \<and>
        sorted (map ?k (map fst hierarchy)) \<and>
        (\<forall>c. sorted (attribute_names c out)) \<and>
        (defs_ordered hierarchy (set (filter_uml_classes E M cs)) (map fst hierarchy) \<longrightarrow>
           sorted (map ?k (class_defs out)))"
    by blast
qed

theorem generate_sorted_by_name_witness:
  "map_option (attribute_names 1) (outfile (snd (generate ex_env ex_model ex_classes))) =
     Some [''direction'', ''isEncapsulated''] \<and>
   map_option class_defs (outfile (snd (generate ex_env ex_model [2, 3, 7]))) = Some [3, 7] \<and>
   defs_ordered [(2, []), (3, []), (7, [3])] {2} [2, 3, 7] \<and>
   sorted (map (\<lambda>c. or_empty (c_name (ex_model c))) [3, 7]) \<and>
   sorted (map (\<lambda>c. or_empty (c_name (ex_model c))) [2, 3, 7])"
proof -
  from ex_small_select(4) obtain out where
    out: "outfile (snd (generate ex_env ex_model [2, 3, 7])) = Some out"
      "class_defs out = [3, 7]"
    by auto
  have ord: "defs_ordered [(2, []), (3, []), (7, [3])] {2} [2, 3, 7]"
    by (simp add: parents_def)
  from generate_sorted_by_name [of ex_env ex_model "[2, 3, 7]", rule_format, OF out(1)]
    ex_small_select out(2) ord ex_generate_attributes
  show ?thesis by auto
qed

text \<open>
  The claim as it is stated fails on the example profile: the class definitions are
  written in the order \<open>NamedItem\<close>, \<open>Block\<close>, \<open>Requirement\<close>.
\<close>

theorem generate_sorted_by_name_counterexample:
  "fst (generate ex_env ex_model ex_classes) = None \<and>
   map_option class_defs (outfile (snd (generate ex_env ex_model ex_classes))) = Some [3, 1, 7] \<and>
   map (\<lambda>c. c_name (ex_model c)) [3, 1, 7] =
     [Some ''NamedItem'', Some ''Block'', Some ''Requirement''] \<and>
   \<not> sorted (map (\<lambda>c. or_empty (c_name (ex_model c))) [3, 1, 7])"
proof -
  have "map (\<lambda>c. c_name (ex_model c)) [3, 1, 7] =
     [Some ''NamedItem'', Some ''Block'', Some ''Requirement'']"
    "\<not> sorted (map (\<lambda>c. or_empty (c_name (ex_model c))) [3, 1, 7])"
    by code_simp+
  with ex_generate_ok ex_generate_defs show ?thesis by simp
qed

lemma contains_Kind_simps [simp]:
  "\<not> contains ''Kind'' ''int''" "\<not> contains ''Kind'' ''str''" "\<not> contains ''Kind'' []"
  by simp_all

lemma write_property_lines_bound:
  "v \<noteq> None \<Longrightarrow>
     fst (write_property_lines E M cls en as (f, p, v)) \<noteq> Some UnboundLocalError"
proof (induction as arbitrary: f p v)
  case Nil
  then show ?case by simp
next
  case (Cons a as)
  show ?case
  proof (cases "skipped a")
    case True
    with Cons show ?thesis by simp
  next
    case False
    show ?thesis
    proof (cases "type_converter M a")
      case (Inl e)
      with False type_converter_Inl [OF Inl] show ?thesis by simp
    next
      case (Inr tv)
      from Cons.prems obtain vs where v: "v = Some vs" by auto
      show ?thesis
      proof (cases "contains ''Kind'' tv")
        case no: False
        with False Inr Cons show ?thesis by auto
      next
        case True
        then have tv: "tv \<notin> {''int'', ''str''}" "tv \<noteq> []" by auto
        obtain vs1 where v1: "(case map_of en tv of
                         Some enum \<Rightarrow> Some (map p_name (c_attribute (M enum)))
                       | None \<Rightarrow> v) = Some vs1"
          using v by (cases "map_of en tv") auto
        show ?thesis
        proof (cases vs1)
          case Nil
          with False Inr True tv v1 show ?thesis by (simp add: Let_def)
        next
          case (Cons x xs)
          with False Inr True tv v1 Cons.IH [of "Some vs1"] show ?thesis
            by (simp add: Let_def)
        qed
      qed
    qed
  qed
qed

lemma first_without_enumeration:
  "(\<exists>pre a rest. x # as = pre @ a # rest \<and> (\<forall>b \<in> set pre. passes_unbound M b) \<and>
       kind_without_enumeration M en a) \<longleftrightarrow>
   kind_without_enumeration M en x \<or>
   (passes_unbound M x \<and>
    (\<exists>pre a rest. as = pre @ a # rest \<and> (\<forall>b \<in> set pre. passes_unbound M b) \<and>
       kind_without_enumeration M en a))"
  (is "?lhs \<longleftrightarrow> ?rhs")
proof
  assume ?lhs
  then obtain pre a rest where p: "x # as = pre @ a # rest"
    "\<forall>b \<in> set pre. passes_unbound M b" "kind_without_enumeration M en a" by blast
  show ?rhs
  proof (cases pre)
    case Nil
    with p show ?thesis by simp
  next
    case (Cons y pre')
    with p have "passes_unbound M x" "as = pre' @ a # rest" "\<forall>b \<in> set pre'. passes_unbound M b"
      by auto
    with p(3) show ?thesis by blast
  qed
next
  assume ?rhs
  then show ?lhs
  proof
    assume "kind_without_enumeration M en x"
    then have "x # as = [] @ x # as \<and> (\<forall>b \<in> set []. passes_unbound M b) \<and>
       kind_without_enumeration M en x" by simp
    then show ?lhs by blast
  next
    assume "passes_unbound M x \<and>
      (\<exists>pre a rest. as = pre @ a # rest \<and> (\<forall>b \<in> set pre. passes_unbound M b) \<and>
         kind_without_enumeration M en a)"
    then obtain pre a rest where "passes_unbound M x" "as = pre @ a # rest"
      "\<forall>b \<in> set pre. passes_unbound M b" "kind_without_enumeration M en a" by blast
    then have "x # as = (x # pre) @ a # rest \<and> (\<forall>b \<in> set (x # pre). passes_unbound M b) \<and>
       kind_without_enumeration M en a" by simp
    then show ?lhs by blast
  qed
qed

lemma write_property_lines_unbound:
  "fst (write_property_lines E M cls en as (f, p, None)) = Some UnboundLocalError \<longleftrightarrow>
     (\<exists>pre a rest. as = pre @ a # rest \<and> (\<forall>b \<in> set pre. passes_unbound M b) \<and>
        kind_without_enumeration M en a)"
proof (induction as arbitrary: f p)
  case Nil
  then show ?case by simp
next
  case (Cons x as)
  show ?case
  proof (cases "skipped x")
    case True
    then have "passes_unbound M x" "\<not> kind_without_enumeration M en x"
      by (simp_all add: passes_unbound_def kind_without_enumeration_def)
    with True Cons.IH show ?thesis
      unfolding first_without_enumeration by simp
  next
    case False
    show ?thesis
    proof (cases "type_converter M x")
      case (Inl e)
      with False have "\<not> passes_unbound M x" "\<not> kind_without_enumeration M en x"
        by (simp_all add: passes_unbound_def kind_without_enumeration_def)
      with False Inl type_converter_Inl [OF Inl] show ?thesis
        unfolding first_without_enumeration by simp
    next
      case (Inr tv)
      show ?thesis
      proof (cases "contains ''Kind'' tv")
        case no: False
        with False Inr have "passes_unbound M x" "\<not> kind_without_enumeration M en x"
          by (simp_all add: passes_unbound_def kind_without_enumeration_def)
        with False Inr no Cons.IH show ?thesis
          unfolding first_without_enumeration by auto
      next
        case True
        then have tv: "tv \<notin> {''int'', ''str''}" "tv \<noteq> []" by auto
        from False Inr True have np: "\<not> passes_unbound M x"
          by (simp add: passes_unbound_def)
        show ?thesis
        proof (cases "map_of en tv")
          case None
          with False Inr True have "kind_without_enumeration M en x"
            by (simp add: kind_without_enumeration_def)
          with False Inr True tv None show ?thesis
            unfolding first_without_enumeration by (simp add: Let_def)
        next
          case (Some enum)
          with False Inr True have nk: "\<not> kind_without_enumeration M en x"
            by (simp add: kind_without_enumeration_def)
          have "fst (write_property_lines E M cls en (x # as) (f, p, None)) \<noteq>
            Some UnboundLocalError"
          proof (cases "map p_name (c_attribute (M enum))")
            case Nil
            with False Inr True tv Some show ?thesis by (simp add: Let_def)
          next
            case (Cons y ys)
            with False Inr True tv Some
              write_property_lines_bound [of "Some (y # ys)" E M cls en as]
            show ?thesis by (simp add: Let_def)
          qed
          with np nk show ?thesis unfolding first_without_enumeration by simp
        qed
      qed
    qed
  qed
qed

text \<open>
  When \<open>write_properties\<close> fails on the unbound variable \<open>values\<close>: exactly when
  the first attribute that is written as an enumeration has a converted type that is no
  key of the dictionary of enumerations, and the run gets to it. So the failure is
  reached for some inputs, and it is not reached when every such attribute has its type
  in the dictionary.
\<close>

lemma write_properties_unbound:
  "(fst (write_properties E M cls en s) = Some UnboundLocalError \<longleftrightarrow>
      (\<exists>pre a rest. c_attribute (M cls) = pre @ a # rest \<and>
         (\<forall>b \<in> set pre. passes_unbound M b) \<and> kind_without_enumeration M en a)) \<and>
   (enumerations_present M en cls \<longrightarrow>
      fst (write_properties E M cls en s) \<noteq> Some UnboundLocalError)"
proof -
  have eq: "fst (write_properties E M cls en s) =
      fst (write_property_lines E M cls en (c_attribute (M cls)) (fst s, snd s, None))"
    by (simp add: write_properties_def split: prod.splits)
  have iff: "fst (write_properties E M cls en s) = Some UnboundLocalError \<longleftrightarrow>
      (\<exists>pre a rest. c_attribute (M cls) = pre @ a # rest \<and>
         (\<forall>b \<in> set pre. passes_unbound M b) \<and> kind_without_enumeration M en a)"
    unfolding eq by (rule write_property_lines_unbound)
  moreover have "enumerations_present M en cls \<longrightarrow>
      fst (write_properties E M cls en s) \<noteq> Some UnboundLocalError"
    unfolding iff enumerations_present_def by auto
  ultimately show ?thesis by blast
qed

lemma write_properties_unbound_reached:
  "fst (write_properties ex_env ex_port_reversed 1 [(''FlowDirectionKind'', 4)] ([], [])) =
     Some UnboundLocalError \<and>
   kind_without_enumeration ex_port_reversed [(''FlowDirectionKind'', 4)]
     ((attr ''mode'')\<lparr>typeValue := Some ''ModeKind''\<rparr>) \<and>
   enumerations_present ex_model [(''FlowDirectionKind'', 4)] 1 \<and>
   fst (write_properties ex_env ex_model 1 [(''FlowDirectionKind'', 4)] ([], [])) \<noteq>
     Some UnboundLocalError"
proof -
  have a: "c_attribute (ex_port_reversed 1) =
      [] @ (attr ''mode'')\<lparr>typeValue := Some ''ModeKind''\<rparr> # [(attr ''direction'')\<lparr>p_type := Some 4\<rparr>]"
    by (simp add: ex_port_reversed_def)
  have k: "kind_without_enumeration ex_port_reversed [(''FlowDirectionKind'', 4)]
     ((attr ''mode'')\<lparr>typeValue := Some ''ModeKind''\<rparr>)"
    by code_simp
  have p: "enumerations_present ex_model [(''FlowDirectionKind'', 4)] 1"
    by code_simp
  from a k have "\<exists>pre a rest. c_attribute (ex_port_reversed 1) = pre @ a # rest \<and>
         (\<forall>b \<in> set pre. passes_unbound ex_port_reversed b) \<and>
         kind_without_enumeration ex_port_reversed [(''FlowDirectionKind'', 4)] a"
    by (intro exI [of _ "[]"] exI conjI) simp_all
  with write_properties_unbound
         [of ex_env ex_port_reversed 1 "[(''FlowDirectionKind'', 4)]" "([], [])"]
    write_properties_unbound
         [of ex_env ex_model 1 "[(''FlowDirectionKind'', 4)]" "([], [])"] k p
  show ?thesis by blast
qed

text \<open>
  C9. The code on a port whose first attribute, \<open>direction\<close>, has its type in the
  dictionary of enumerations and whose second attribute, \<open>mode\<close>, has not. The lookup
  for \<open>mode\<close> fails, and \<open>write_properties\<close> does not reach the emission line with
  \<open>values\<close> unbound: \<open>values\<close> still holds the names of \<open>FlowDirectionKind\<close> from the
  attribute before, the line of \<open>mode\<close> is written with them, and the run returns.
\<close>

theorem write_properties_stale_values:
  "c_attribute (ex_port 1) =
     [(attr ''direction'')\<lparr>p_type := Some 4\<rparr>, (attr ''mode'')\<lparr>typeValue := Some ''ModeKind''\<rparr>] \<and>
   type_converter ex_port ((attr ''mode'')\<lparr>typeValue := Some ''ModeKind''\<rparr>) = Inr ''ModeKind'' \<and>
   map_of [(''FlowDirectionKind'', 4 :: nat)] ''ModeKind'' = None \<and>
   write_properties ex_env ex_port 1 [(''FlowDirectionKind'', 4)] ([], []) =
     (None,
      [(Prop 1, ''Port.direction = enumeration('' @ [CHR 0x22] @ ''direction'' @ [CHR 0x22] @
                '', ('' @ [CHR 0x27] @ ''in'' @ [CHR 0x27] @ '', '' @
                [CHR 0x27] @ ''out'' @ [CHR 0x27] @ ''), '' @
                [CHR 0x22] @ ''in'' @ [CHR 0x22] @ '')'' @ [CHR 0x0A]),
       (Prop 1, ''Port.mode = enumeration('' @ [CHR 0x22] @ ''mode'' @ [CHR 0x22] @
                '', ('' @ [CHR 0x27] @ ''in'' @ [CHR 0x27] @ '', '' @
                [CHR 0x27] @ ''out'' @ [CHR 0x27] @ ''), '' @
                [CHR 0x22] @ ''in'' @ [CHR 0x22] @ '')'' @ [CHR 0x0A])],
      [])"
proof -
  have "c_attribute (ex_port 1) =
     [(attr ''direction'')\<lparr>p_type := Some 4\<rparr>, (attr ''mode'')\<lparr>typeValue := Some ''ModeKind''\<rparr>]"
    by (simp add: ex_port_def)
  moreover have
    "type_converter ex_port ((attr ''mode'')\<lparr>typeValue := Some ''ModeKind''\<rparr>) = Inr ''ModeKind''"
    "map_of [(''FlowDirectionKind'', 4 :: nat)] ''ModeKind'' = None"
    "write_properties ex_env ex_port 1 [(''FlowDirectionKind'', 4)] ([], []) =
     (None,
      [(Prop 1, ''Port.direction = enumeration('' @ [CHR 0x22] @ ''direction'' @ [CHR 0x22] @
                '', ('' @ [CHR 0x27] @ ''in'' @ [CHR 0x27] @ '', '' @
                [CHR 0x27] @ ''out'' @ [CHR 0x27] @ ''), '' @
                [CHR 0x22] @ ''in'' @ [CHR 0x22] @ '')'' @ [CHR 0x0A]),
       (Prop 1, ''Port.mode = enumeration('' @ [CHR 0x22] @ ''mode'' @ [CHR 0x22] @
                '', ('' @ [CHR 0x27] @ ''in'' @ [CHR 0x27] @ '', '' @
                [CHR 0x27] @ ''out'' @ [CHR 0x27] @ ''), '' @
                [CHR 0x22] @ ''in'' @ [CHR 0x22] @ '')'' @ [CHR 0x0A])],
      [])"
    by code_simp+
  ultimately show ?thesis by (intro conjI)
qed

end
